theory Spec2Isabelle
  imports Main "HOL-Library.Word"
begin

section \<open>The QTC post-quantum network seeder (contrib/seeds/qtc-seeder.py)\<close>

subsection \<open>Bytes, exceptions and protocol constants\<close>

text \<open>
  A Python \<open>bytes\<close> object is a list of 8-bit words. Python exceptions are values: every
  exception the modelled code can meet is a subclass of \<open>Exception\<close>, so each of them is
  caught by an \<open>except Exception\<close> clause.
\<close>

type_synonym byte = "8 word"
type_synonym bytes = "byte list"

datatype py_exn = ValueError | IndexError | StructError | OverflowError | OSError | TimeoutError

definition QTC_MAGIC_BYTES :: bytes where
  "QTC_MAGIC_BYTES = [0xF9, 0xBE, 0xB4, 0xD9]"

definition QTC_VERSION :: int where
  "QTC_VERSION = 1"

definition DEFAULT_PORT :: int where
  "DEFAULT_PORT = 8333"

definition PQ_HANDSHAKE_TIMEOUT :: int where
  "PQ_HANDSHAKE_TIMEOUT = 30"

subsection \<open>The probe codec: \<open>create_pq_handshake\<close>\<close>

text \<open>
  \<open>struct.pack('<H', n)\<close>: two bytes, low byte first; Python raises \<open>struct.error\<close> when
  \<open>n\<close> is outside \<open>0..65535\<close>.
\<close>

definition pack_H :: "int \<Rightarrow> py_exn + bytes" where
  "pack_H n =
     (if 0 \<le> n \<and> n \<le> 65535
      then Inr [word_of_int (n mod 256), word_of_int (n div 256)]
      else Inl StructError)"

text \<open>
  \<open>create_pq_handshake(server_pk=None)\<close>: the argument is \<open>None\<close> or a bytes object. The
  bytearray \<open>msg\<close> is extended five times; \<open>msg1\<close> .. \<open>msg5\<close> are its successive values.
\<close>

definition create_pq_handshake :: "bytes option \<Rightarrow> py_exn + bytes" where
  "create_pq_handshake server_pk_arg =
     (let server_pk = (case server_pk_arg of None \<Rightarrow> replicate 1568 0 | Some pk \<Rightarrow> pk);
          msg1 = [] @ QTC_MAGIC_BYTES
      in case pack_H QTC_VERSION of
           Inl e \<Rightarrow> Inl e
         | Inr ver \<Rightarrow>
            (let msg2 = msg1 @ ver
             in case pack_H (int (length server_pk)) of
                  Inl e \<Rightarrow> Inl e
                | Inr len \<Rightarrow>
                   (let msg3 = msg2 @ len;
                        msg4 = msg3 @ server_pk;
                        msg5 = msg4 @ replicate 32 0
                    in Inr msg5)))"

text \<open>
  The specification's reading of an unsigned little-endian field: the number a byte string
  denotes when its first byte is the least significant one.
\<close>

fun spec_le_value :: "bytes \<Rightarrow> nat" where
  "spec_le_value [] = 0"
| "spec_le_value (b # bs) = unat b + 256 * spec_le_value bs"

subsection \<open>The acceptance test on a response\<close>

text \<open>
  \<open>response[6]\<close> raises \<open>IndexError\<close> out of range; \<open>response[:4]\<close> is a slice and never
  raises.
\<close>

definition py_getitem :: "bytes \<Rightarrow> nat \<Rightarrow> py_exn + byte" where
  "py_getitem b i = (if i < length b then Inr (b ! i) else Inl IndexError)"

text \<open>
  The two nested conditions of \<open>test_pq_handshake\<close> (lines 81 and 83): the result is
  \<open>Inr True\<close> where the source reaches \<open>return True\<close>, \<open>Inr False\<close> where it falls through
  to \<open>sock.close(); return False\<close>, and \<open>Inl e\<close> where evaluating the condition raises.
  Python's \<open>and\<close> evaluates \<open>response[6]\<close> only when the magic bytes match.
\<close>

definition accepts_response :: "bytes \<Rightarrow> py_exn + bool" where
  "accepts_response response =
     (if 7 \<le> length response then
        (if take 4 response = QTC_MAGIC_BYTES then
           (case py_getitem response 6 of
              Inl e \<Rightarrow> Inl e
            | Inr status \<Rightarrow> Inr (status = 0))
         else Inr False)
      else Inr False)"

subsection \<open>The handshake prober: \<open>test_pq_handshake\<close>\<close>

text \<open>
  What the outside world does during one probe is an input of the model: whether
  \<open>socket.socket\<close>, \<open>connect\<close>, \<open>send\<close> raise, what \<open>recv\<close> returns or raises, and the
  value \<open>time.time()\<close> has when the peer is recorded.
\<close>

record peer_env =
  socket_exn :: "py_exn option"
  connect_exn :: "py_exn option"
  send_exn :: "py_exn option"
  recv_result :: "py_exn + bytes"
  clock :: int

text \<open>
  The socket object the probe creates: not created, open, or closed by \<open>sock.close()\<close>.
\<close>

datatype sock_status = NoSocket | SockOpen | SockClosed

text \<open>
  Calls of the logger, one constructor per call site: the message texts are not modelled,
  their arguments are.
\<close>

datatype log_entry =
    HandshakeOk string int
  | HandshakeFailed string int py_exn
  | FoundPeers nat
  | CrawlError string py_exn
  | CrawlStarting
  | CrawlCompleted nat
  | SavedPeers nat string
  | Sleeping int

text \<open>
  \<open>sock.connect((host, port))\<close> raises \<open>OverflowError\<close> for a port outside \<open>0..65535\<close>
  before it touches the network; \<open>sock.recv(4096)\<close> returns at most 4096 bytes.
\<close>

definition sock_connect :: "peer_env \<Rightarrow> string \<Rightarrow> int \<Rightarrow> py_exn + unit" where
  "sock_connect env h p =
     (if p < 0 \<or> 65535 < p then Inl OverflowError
      else case connect_exn env of Some e \<Rightarrow> Inl e | None \<Rightarrow> Inr ())"

definition sock_send :: "peer_env \<Rightarrow> bytes \<Rightarrow> py_exn + unit" where
  "sock_send env msg = (case send_exn env of Some e \<Rightarrow> Inl e | None \<Rightarrow> Inr ())"

definition sock_recv :: "peer_env \<Rightarrow> nat \<Rightarrow> py_exn + bytes" where
  "sock_recv env bufsize =
     (case recv_result env of Inl e \<Rightarrow> Inl e | Inr data \<Rightarrow> Inr (take bufsize data))"

record probe_result =
  capable :: bool
  sock :: sock_status
  plog :: "log_entry list"

text \<open>
  The \<open>try\<close> block of \<open>test_pq_handshake\<close>. The first component is the state of the socket
  when the block is left; the second is the exception that leaves it, or the returned value
  with the logger calls made. Only the path through line 87 calls \<open>sock.close()\<close>.
\<close>

definition test_pq_handshake_try ::
  "peer_env \<Rightarrow> string \<Rightarrow> int \<Rightarrow> sock_status \<times> (py_exn + bool \<times> log_entry list)" where
  "test_pq_handshake_try env h p =
     (case socket_exn env of
        Some e \<Rightarrow> (NoSocket, Inl e)
      | None \<Rightarrow>
         (case sock_connect env h p of
            Inl e \<Rightarrow> (SockOpen, Inl e)
          | Inr _ \<Rightarrow>
             (case create_pq_handshake None of
                Inl e \<Rightarrow> (SockOpen, Inl e)
              | Inr handshake_msg \<Rightarrow>
                 (case sock_send env handshake_msg of
                    Inl e \<Rightarrow> (SockOpen, Inl e)
                  | Inr _ \<Rightarrow>
                     (case sock_recv env 4096 of
                        Inl e \<Rightarrow> (SockOpen, Inl e)
                      | Inr response \<Rightarrow>
                         (case accepts_response response of
                            Inl e \<Rightarrow> (SockOpen, Inl e)
                          | Inr ok \<Rightarrow>
                             if ok then (SockOpen, Inr (True, [HandshakeOk h p]))
                             else (SockClosed, Inr (False, []))))))))"

text \<open>The whole method: \<open>except Exception\<close> logs at debug level and returns \<open>False\<close>.\<close>

definition test_pq_handshake :: "peer_env \<Rightarrow> string \<Rightarrow> int \<Rightarrow> probe_result" where
  "test_pq_handshake env h p =
     (case test_pq_handshake_try env h p of
        (s, Inr (r, l)) \<Rightarrow> \<lparr>capable = r, sock = s, plog = l\<rparr>
      | (s, Inl e) \<Rightarrow> \<lparr>capable = False, sock = s, plog = [HandshakeFailed h p e]\<rparr>)"

subsection \<open>The seeder object\<close>

record peer_info =
  pi_addr :: string
  pi_host :: string
  pi_port :: int
  pq_capable :: bool
  last_seen :: int
  success_count :: int

record snapshot =
  timestamp :: int
  total_peers :: nat
  peers :: "peer_info list"

text \<open>
  The fields of \<open>QTCPQSeeder\<close>, with the two things the object writes to: the logger
  (\<open>log\<close>, in call order) and the output file (\<open>written\<close>, the document of the last
  successful \<open>save_peers\<close>).
\<close>

record seeder =
  known_peers :: "string set"
  good_peers :: "peer_info list"
  output_file :: string
  max_peers :: int
  log :: "log_entry list"
  written :: "snapshot option"

definition seeder_init :: "string \<Rightarrow> int \<Rightarrow> seeder" where
  "seeder_init out_file cap =
     \<lparr>known_peers = {}, good_peers = [], output_file = out_file, max_peers = cap,
      log = [], written = None\<rparr>"

subsection \<open>Seeding: \<open>add_seed_nodes\<close>\<close>

text \<open>\<open>str\<close> of an integer, for the f-string \<open>f"{seed}:{DEFAULT_PORT}"\<close>.\<close>

fun str_nat :: "nat \<Rightarrow> string" where
  "str_nat n =
     (if n < 10 then [''0123456789'' ! n]
      else str_nat (n div 10) @ [''0123456789'' ! (n mod 10)])"

declare str_nat.simps [simp del]

definition py_str :: "int \<Rightarrow> string" where
  "py_str n = (if n < 0 then CHR ''-'' # str_nat (nat (- n)) else str_nat (nat n))"

definition seeds :: "string list" where
  "seeds = [''seed1.qtc.org'', ''seed2.qtc.org'', ''seed3.qtc.org'', ''127.0.0.1'']"

text \<open>Line 48, the body of the loop: \<open>self.known_peers.add(...)\<close> on a Python set.\<close>

definition add_known_peer :: "string \<Rightarrow> seeder \<Rightarrow> seeder" where
  "add_known_peer a st = st\<lparr>known_peers := insert a (known_peers st)\<rparr>"

definition add_seed_nodes :: "seeder \<Rightarrow> seeder" where
  "add_seed_nodes st =
     fold (\<lambda>seed. add_known_peer (seed @ '':'' @ py_str DEFAULT_PORT)) seeds st"

subsection \<open>Crawling one peer: \<open>crawl_peer\<close>\<close>

text \<open>
  \<open>peer_addr.rsplit(':', 1)\<close>: split at the last colon; without a colon the list has one
  element.
\<close>

definition rsplit_colon :: "string \<Rightarrow> string list" where
  "rsplit_colon s =
     (let r = rev s;
          after = takeWhile (\<lambda>c. c \<noteq> CHR '':'') r;
          rest = dropWhile (\<lambda>c. c \<noteq> CHR '':'') r
      in if rest = [] then [s] else [rev (tl rest), rev after])"

text \<open>
  \<open>int(port)\<close> on a string whose characters are the code points below 256: whitespace is
  stripped at both ends, one sign is allowed, then decimal digits, where single
  underscores may separate digits. Anything else raises \<open>ValueError\<close>, and so does a
  string of more than 4300 digits (the default limit of \<open>sys.set_int_max_str_digits\<close>).
  The characters \<open>int\<close> strips are \<open>0x09\<close> to \<open>0x0D\<close>, the space, \<open>0x85\<close> and \<open>0xA0\<close>; the
  separators \<open>0x1C\<close> to \<open>0x1F\<close> are not among them. The only decimal digits below 256 are
  \<open>0\<close> to \<open>9\<close>.
\<close>

definition py_isspace :: "char \<Rightarrow> bool" where
  "py_isspace c =
     (let n = (of_char c :: nat) in (9 \<le> n \<and> n \<le> 13) \<or> n = 32 \<or> n = 133 \<or> n = 160)"

definition py_strip :: "string \<Rightarrow> string" where
  "py_strip s = rev (dropWhile py_isspace (rev (dropWhile py_isspace s)))"

definition is_digit :: "char \<Rightarrow> bool" where
  "is_digit c = (let n = (of_char c :: nat) in 48 \<le> n \<and> n \<le> 57)"

fun digits_ok :: "string \<Rightarrow> bool" where
  "digits_ok [] = False"
| "digits_ok [c] = is_digit c"
| "digits_ok (c # d # cs) =
     (is_digit c \<and> (if d = CHR ''_'' then digits_ok cs else digits_ok (d # cs)))"

definition digits_value :: "string \<Rightarrow> int" where
  "digits_value s = foldl (\<lambda>acc c. 10 * acc + (of_char c - 48)) 0 (filter is_digit s)"

definition py_int :: "string \<Rightarrow> py_exn + int" where
  "py_int s =
     (let t = py_strip s;
          neg = (t \<noteq> [] \<and> hd t = CHR ''-'');
          body = (if t \<noteq> [] \<and> (hd t = CHR ''-'' \<or> hd t = CHR ''+'') then tl t else t)
      in if digits_ok body \<and> length (filter is_digit body) \<le> 4300
         then Inr ((if neg then - 1 else 1) * digits_value body)
         else Inl ValueError)"

text \<open>
  Lines 97 and 98: unpacking the split into two names raises \<open>ValueError\<close> unless it has
  exactly two elements.
\<close>

definition parse_peer_addr :: "string \<Rightarrow> py_exn + string \<times> int" where
  "parse_peer_addr peer_addr =
     (case rsplit_colon peer_addr of
        [h, p] \<Rightarrow> (case py_int p of Inl e \<Rightarrow> Inl e | Inr n \<Rightarrow> Inr (h, n))
      | _ \<Rightarrow> Inl ValueError)"

text \<open>The \<open>try\<close> block of \<open>crawl_peer\<close> (lines 97 to 114).\<close>

definition crawl_peer_try :: "peer_env \<Rightarrow> seeder \<Rightarrow> string \<Rightarrow> py_exn + seeder" where
  "crawl_peer_try env st peer_addr =
     (case parse_peer_addr peer_addr of
        Inl e \<Rightarrow> Inl e
      | Inr (h, p) \<Rightarrow>
         (let r = test_pq_handshake env h p;
              st1 = st\<lparr>log := log st @ plog r\<rparr>
          in if capable r then
               (let info = \<lparr>pi_addr = peer_addr, pi_host = h, pi_port = p, pq_capable = True,
                            last_seen = clock env, success_count = 1\<rparr>;
                    st2 = st1\<lparr>good_peers := good_peers st1 @ [info]\<rparr>
                in if length (good_peers st2) mod 10 = 0
                   then Inr (st2\<lparr>log := log st2 @ [FoundPeers (length (good_peers st2))]\<rparr>)
                   else Inr st2)
             else Inr st1))"

text \<open>
  The whole method: an exception of the block is logged as an error and swallowed. The
  block raises only while parsing, before it has changed anything.
\<close>

definition crawl_peer :: "peer_env \<Rightarrow> seeder \<Rightarrow> string \<Rightarrow> py_exn + seeder" where
  "crawl_peer env st peer_addr =
     (case crawl_peer_try env st peer_addr of
        Inl e \<Rightarrow> Inr (st\<lparr>log := log st @ [CrawlError peer_addr e]\<rparr>)
      | Inr st' \<Rightarrow> Inr st')"

subsection \<open>One crawl pass: \<open>crawl_network\<close>\<close>

text \<open>
  \<open>crawl_network\<close> runs on several threads. The main thread walks
  \<open>list(self.known_peers)\<close> and submits one task per address to a
  \<open>ThreadPoolExecutor(max_workers=threads)\<close>; \<open>submit\<close> puts the task on the executor's
  unbounded work queue and returns at once. At most \<open>threads\<close> workers take tasks from the
  queue, first in first out, and run \<open>crawl_peer\<close>. The only shared data are \<open>good_peers\<close>,
  which a worker extends under the lock and whose length the main thread reads before each
  submission, and the logger. An execution is therefore an interleaving of three kinds of
  atomic steps:
  \<^item> \<open>Submit\<close>: one iteration of the \<open>for\<close> loop of lines 130 to 134 (or leaving the loop);
  \<^item> \<open>Start\<close>: an idle worker takes the oldest queued task;
  \<^item> \<open>Finish a\<close>: the running task for address \<open>a\<close> completes. The probe reads no shared
    data, so the whole of \<open>crawl_peer\<close> takes effect at this step.
\<close>

datatype event = Submit | Start | Finish string

text \<open>
  The state of a pass: the seeder object, \<open>max_workers\<close>, the addresses the loop has still
  to visit, whether the main thread is still in the loop, the list \<open>futures\<close> (by address),
  the executor's queue, the tasks being run, and the first exception a task has raised
  (\<open>future.result()\<close> raises it again in the main thread).
\<close>

record pass_state =
  self :: seeder
  threads :: int
  todo :: "string list"
  submitting :: bool
  futures :: "string list"
  queue :: "string list"
  running :: "string list"
  raised :: "py_exn option"

definition pass_init :: "seeder \<Rightarrow> int \<Rightarrow> string list \<Rightarrow> pass_state" where
  "pass_init st n frontier =
     \<lparr>self = st, threads = n, todo = frontier, submitting = True, futures = [],
      queue = [], running = [], raised = None\<rparr>"

text \<open>A step that is not enabled in a state leaves the state as it is.\<close>

definition step :: "(string \<Rightarrow> peer_env) \<Rightarrow> event \<Rightarrow> pass_state \<Rightarrow> pass_state" where
  "step net ev s =
     (case ev of
        Submit \<Rightarrow>
          (if \<not> submitting s then s
           else case todo s of
                  [] \<Rightarrow> s\<lparr>submitting := False\<rparr>
                | peer # rest \<Rightarrow>
                    if max_peers (self s) \<le> int (length (good_peers (self s)))
                    then s\<lparr>submitting := False\<rparr>
                    else s\<lparr>todo := rest, futures := futures s @ [peer],
                           queue := queue s @ [peer]\<rparr>)
      | Start \<Rightarrow>
          (case queue s of
             [] \<Rightarrow> s
           | a # q \<Rightarrow>
               if int (length (running s)) < threads s
               then s\<lparr>queue := q, running := running s @ [a]\<rparr>
               else s)
      | Finish a \<Rightarrow>
          (if a \<in> set (running s) then
             (case crawl_peer (net a) (self s) a of
                Inr st' \<Rightarrow> s\<lparr>self := st', running := remove1 a (running s)\<rparr>
              | Inl e \<Rightarrow>
                  s\<lparr>running := remove1 a (running s),
                    raised := (case raised s of None \<Rightarrow> Some e | Some e0 \<Rightarrow> Some e0)\<rparr>)
           else s))"

definition exec :: "(string \<Rightarrow> peer_env) \<Rightarrow> event list \<Rightarrow> pass_state \<Rightarrow> pass_state" where
  "exec net evs s = fold (step net) evs s"

text \<open>
  Leaving the \<open>with\<close> block waits for every submitted task, and the loop over
  \<open>as_completed(futures)\<close> has nothing left to wait for then. \<open>drain\<close> brings any state to
  that point by one fixed interleaving: the main thread finishes its loop, the running
  tasks complete, and the queued tasks are taken and completed one after the other.
\<close>

definition pass_complete :: "pass_state \<Rightarrow> bool" where
  "pass_complete s = (\<not> submitting s \<and> queue s = [] \<and> running s = [])"

definition drain :: "(string \<Rightarrow> peer_env) \<Rightarrow> pass_state \<Rightarrow> pass_state" where
  "drain net s =
     (let s1 = exec net (replicate (Suc (length (todo s))) Submit) s;
          s2 = exec net (map Finish (running s1)) s1
      in exec net (concat (map (\<lambda>a. [Start, Finish a]) (queue s2))) s2)"

text \<open>
  The inputs of one pass: the order in which \<open>list(self.known_peers)\<close> enumerates the set
  (Python does not fix it), the interleaving of the threads, the behaviour of the network
  for each address, and for \<open>save_peers\<close> whether opening or writing the file raises and
  what \<open>time.time()\<close> returns. Steps of the interleaving that are not enabled are skipped,
  and what the interleaving leaves undone is drained, so every \<open>sched\<close> stands for an
  execution of the pass and every execution is \<open>sched\<close> for the list of its steps.
\<close>

record pass_env =
  peer_order :: "string list"
  sched :: "event list"
  net :: "string \<Rightarrow> peer_env"
  write_exn :: "py_exn option"
  save_time :: int

definition frontier_order :: "seeder \<Rightarrow> string list \<Rightarrow> bool" where
  "frontier_order st xs = (distinct xs \<and> set xs = known_peers st)"

definition pass_final :: "pass_env \<Rightarrow> seeder \<Rightarrow> int \<Rightarrow> pass_state" where
  "pass_final env st n =
     drain (net env) (exec (net env) (sched env) (pass_init st n (peer_order env)))"

text \<open>
  \<open>crawl_network(threads)\<close>. \<open>ThreadPoolExecutor\<close> raises \<open>ValueError\<close> when
  \<open>max_workers\<close> is not positive.
\<close>

definition crawl_network :: "pass_env \<Rightarrow> seeder \<Rightarrow> int \<Rightarrow> py_exn + seeder" where
  "crawl_network env st n =
     (let st1 = add_seed_nodes (st\<lparr>log := log st @ [CrawlStarting]\<rparr>)
      in if n \<le> 0 then Inl ValueError
         else (let s = pass_final env st1 n
               in case raised s of
                    Some e \<Rightarrow> Inl e
                  | None \<Rightarrow>
                      Inr ((self s)\<lparr>log := log (self s)
                              @ [CrawlCompleted (length (good_peers (self s)))]\<rparr>)))"

subsection \<open>Persistence and the continuous runner\<close>

definition save_peers :: "pass_env \<Rightarrow> seeder \<Rightarrow> py_exn + seeder" where
  "save_peers env st =
     (let output = \<lparr>timestamp = save_time env, total_peers = length (good_peers st),
                    peers = good_peers st\<rparr>
      in case write_exn env of
           Some e \<Rightarrow> Inl e
         | None \<Rightarrow>
             Inr (st\<lparr>written := Some output,
                    log := log st @ [SavedPeers (length (good_peers st)) (output_file st)]\<rparr>))"

text \<open>
  \<open>time.sleep(secs)\<close> for an integer argument: \<open>ValueError\<close> for a negative one,
  \<open>OverflowError\<close> when the seconds do not fit a 64-bit count of nanoseconds. How long the
  call blocks is not modelled.
\<close>

definition time_sleep :: "int \<Rightarrow> py_exn + unit" where
  "time_sleep secs =
     (if secs < 0 then Inl ValueError
      else if 9223372036 < secs then Inl OverflowError
      else Inr ())"

text \<open>
  \<open>run_continuous(interval)\<close>: \<open>while True\<close> has no exit, so the method returns only by an
  exception. The result is that exception, the number of the pass that raised it (passes
  are counted from the argument \<open>i\<close>, which also selects the inputs of each pass) and the
  seeder at that moment; \<open>None\<close> is the loop running forever. \<open>crawl_network()\<close> is called
  with its default of 50 threads.
\<close>

partial_function (option) run_continuous ::
  "(nat \<Rightarrow> pass_env) \<Rightarrow> int \<Rightarrow> nat \<Rightarrow> seeder \<Rightarrow> (py_exn \<times> nat \<times> seeder) option" where
  "run_continuous envs interval i st =
     (case crawl_network (envs i) st 50 of
        Inl e \<Rightarrow> Some (e, i, st)
      | Inr st1 \<Rightarrow>
         (case save_peers (envs i) st1 of
            Inl e \<Rightarrow> Some (e, i, st1)
          | Inr st2 \<Rightarrow>
             (let st3 = st2\<lparr>log := log st2 @ [Sleeping interval]\<rparr>
              in case time_sleep interval of
                   Inl e \<Rightarrow> Some (e, i, st3)
                 | Inr _ \<Rightarrow> run_continuous envs interval (Suc i) st3)))"

text \<open>
  The seeder after the first \<open>k\<close> iterations of that loop, when none of them raises: the
  states the continuous mode passes through.
\<close>

fun after_passes :: "(nat \<Rightarrow> pass_env) \<Rightarrow> int \<Rightarrow> nat \<Rightarrow> nat \<Rightarrow> seeder \<Rightarrow> py_exn + seeder" where
  "after_passes envs interval i 0 st = Inr st"
| "after_passes envs interval i (Suc k) st =
     (case crawl_network (envs i) st 50 of
        Inl e \<Rightarrow> Inl e
      | Inr st1 \<Rightarrow>
         (case save_peers (envs i) st1 of
            Inl e \<Rightarrow> Inl e
          | Inr st2 \<Rightarrow>
             (let st3 = st2\<lparr>log := log st2 @ [Sleeping interval]\<rparr>
              in case time_sleep interval of
                   Inl e \<Rightarrow> Inl e
                 | Inr _ \<Rightarrow> after_passes envs interval (Suc i) k st3)))"

subsection \<open>Auxiliary notions for the proofs\<close>

text \<open>
  Whether \<open>crawl_peer\<close> reaches line 111 for an address: the address parses and the probe
  returns \<open>True\<close>.
\<close>

definition confirms :: "(string \<Rightarrow> peer_env) \<Rightarrow> string \<Rightarrow> bool" where
  "confirms nt a =
     (case parse_peer_addr a of
        Inl e \<Rightarrow> False
      | Inr (h, p) \<Rightarrow> capable (test_pq_handshake (nt a) h p))"

text \<open>
  What every interleaving of a pass preserves, relative to the seeder \<open>st0\<close> and the
  frontier the pass started with: the pass only appends to \<open>good_peers\<close>; each submitted
  task whose probe succeeds is queued, running or has appended one record; no task raises.
\<close>

definition pass_inv ::
  "(string \<Rightarrow> peer_env) \<Rightarrow> seeder \<Rightarrow> int \<Rightarrow> string list \<Rightarrow> pass_state \<Rightarrow> bool" where
  "pass_inv nt st0 n frontier s =
     (known_peers (self s) = known_peers st0 \<and> max_peers (self s) = max_peers st0 \<and>
      output_file (self s) = output_file st0 \<and> written (self s) = written st0 \<and>
      threads s = n \<and> raised s = None \<and> futures s @ todo s = frontier \<and>
      (\<exists>new. good_peers (self s) = good_peers st0 @ new \<and>
         length new + length (filter (confirms nt) (running s))
           + length (filter (confirms nt) (queue s))
           = length (filter (confirms nt) (futures s)) \<and>
         (distinct frontier \<longrightarrow> distinct (map pi_addr new @ running s @ queue s @ todo s))))"

text \<open>
  Where the tasks and the new records of a pass come from: a task has been submitted, and a
  record appended during the pass carries the address of a submitted task whose probe
  succeeded.
\<close>

definition pass_inv_addrs :: "(string \<Rightarrow> peer_env) \<Rightarrow> seeder \<Rightarrow> pass_state \<Rightarrow> bool" where
  "pass_inv_addrs nt st0 s =
     (set (running s) \<union> set (queue s) \<subseteq> set (futures s) \<and>
      pi_addr ` set (drop (length (good_peers st0)) (good_peers (self s)))
        \<subseteq> set (filter (confirms nt) (futures s)))"

text \<open>
  What a pass has logged: a submitted task that is neither queued nor running has
  completed, and if its address does not parse, the error is in the log.
\<close>

definition pass_inv_log :: "pass_state \<Rightarrow> bool" where
  "pass_inv_log s =
     (\<forall>a \<in> set (futures s).
        a \<in> set (running s) \<or> a \<in> set (queue s) \<or>
        (\<forall>e. parse_peer_addr a = Inl e \<longrightarrow> CrawlError a e \<in> set (log (self s))))"

subsection \<open>Concrete peers\<close>

text \<open>
  A peer that answers the probe with the magic bytes, a version and a zero status byte, and
  a peer whose port refuses the connection.
\<close>

definition accepting_peer :: peer_env where
  "accepting_peer =
     \<lparr>socket_exn = None, connect_exn = None, send_exn = None,
      recv_result = Inr (QTC_MAGIC_BYTES @ [1, 0, 0]), clock = 1700000000\<rparr>"

definition refusing_peer :: peer_env where
  "refusing_peer =
     \<lparr>socket_exn = None, connect_exn = Some OSError, send_exn = None,
      recv_result = Inl OSError, clock = 1700000000\<rparr>"

text \<open>
  A pass over the four seed addresses in which the three seed hosts accept the handshake
  and the local address refuses the connection. In its interleaving the main thread
  submits all four tasks and leaves the loop before any probe has completed; three workers
  start, and the three accepting probes complete.
\<close>

definition seed_order :: "string list" where
  "seed_order =
     [''seed1.qtc.org:8333'', ''seed2.qtc.org:8333'', ''seed3.qtc.org:8333'', ''127.0.0.1:8333'']"

definition race_net :: "string \<Rightarrow> peer_env" where
  "race_net a = (if a = ''127.0.0.1:8333'' then refusing_peer else accepting_peer)"

definition race_env :: pass_env where
  "race_env =
     \<lparr>peer_order = seed_order,
      sched = [Submit, Submit, Submit, Submit, Submit, Start, Start, Start,
               Finish ''seed1.qtc.org:8333'', Finish ''seed2.qtc.org:8333'',
               Finish ''seed3.qtc.org:8333''],
      net = race_net, write_exn = None, save_time = 1700000100\<rparr>"

text \<open>
  A pass in which only the local address accepts the handshake, run in the fixed
  interleaving of \<open>drain\<close>, and the same pass when the output file cannot be written.
\<close>

definition local_net :: "string \<Rightarrow> peer_env" where
  "local_net a = (if a = ''127.0.0.1:8333'' then accepting_peer else refusing_peer)"

definition local_env :: pass_env where
  "local_env =
     \<lparr>peer_order = seed_order, sched = [], net = local_net, write_exn = None,
      save_time = 1700000100\<rparr>"


text \<open>
  The same pass over a frontier that also holds an address without a port.
\<close>

definition malformed_env :: pass_env where
  "malformed_env = local_env\<lparr>peer_order := ''localhost'' # seed_order\<rparr>"

subsection \<open>Facts about the codec\<close>

lemma pack_H_in_range:
  "0 \<le> n \<Longrightarrow> n \<le> 65535 \<Longrightarrow>
     pack_H n = Inr [word_of_int (n mod 256), word_of_int (n div 256)]"
  by (simp add: pack_H_def)

lemma pack_H_out_of_range: "65535 < n \<Longrightarrow> pack_H n = Inl StructError"
  by (simp add: pack_H_def)

lemma spec_le_value_pack:
  assumes "0 \<le> n" "n \<le> 65535"
  shows "int (spec_le_value [word_of_int (n mod 256), word_of_int (n div 256)]) = n"
  using assms by (simp add: uint_word_of_int)

lemma pack_H_version: "pack_H QTC_VERSION = Inr [1, 0]"
  by (simp add: pack_H_def QTC_VERSION_def)

lemma create_pq_handshake_Some:
  "create_pq_handshake (Some ct) =
     (case pack_H (int (length ct)) of
        Inl e \<Rightarrow> Inl e
      | Inr len \<Rightarrow> Inr (QTC_MAGIC_BYTES @ [1, 0] @ len @ ct @ replicate 32 0))"
  by (simp add: create_pq_handshake_def pack_H_version split: sum.splits)

lemma create_pq_handshake_None:
  "create_pq_handshake None = create_pq_handshake (Some (replicate 1568 0))"
  by (simp add: create_pq_handshake_def)

lemma create_pq_handshake_default:
  "create_pq_handshake None =
     Inr (QTC_MAGIC_BYTES @ [1, 0] @ [0x20, 0x06] @ replicate 1568 0 @ replicate 32 0)"
  by (simp add: create_pq_handshake_None create_pq_handshake_Some pack_H_def)

subsection \<open>Facts about the prober and \<open>crawl_peer\<close>\<close>

lemma accepts_response_iff:
  "accepts_response buf = Inr (7 \<le> length buf \<and> take 4 buf = QTC_MAGIC_BYTES \<and> buf ! 6 = 0)"
  by (simp add: accepts_response_def py_getitem_def)

lemma accepts_response_take:
  "accepts_response (take 4096 buf) = accepts_response buf"
  by (simp add: accepts_response_iff min_def)

lemma test_pq_handshake_try_reached:
  assumes "socket_exn env = None" "connect_exn env = None" "send_exn env = None"
    "recv_result env = Inr buf" "0 \<le> p" "p \<le> 65535"
  shows "test_pq_handshake_try env h p =
     (if 7 \<le> length buf \<and> take 4 buf = QTC_MAGIC_BYTES \<and> buf ! 6 = 0
      then (SockOpen, Inr (True, [HandshakeOk h p])) else (SockClosed, Inr (False, [])))"
  using assms
  by (simp add: test_pq_handshake_try_def sock_connect_def sock_send_def sock_recv_def
      create_pq_handshake_default accepts_response_take accepts_response_iff)

lemma crawl_peer_total: "\<exists>st'. crawl_peer env st a = Inr st'"
  by (simp add: crawl_peer_def split: sum.splits)

lemma crawl_peer_fields:
  assumes "crawl_peer env st a = Inr st'"
  shows "known_peers st' = known_peers st" "max_peers st' = max_peers st"
    "output_file st' = output_file st" "written st' = written st"
  using assms
  by (auto simp: crawl_peer_def crawl_peer_try_def Let_def split: sum.splits prod.splits if_splits)

lemma crawl_peer_good_peers:
  assumes "crawl_peer (nt a) st a = Inr st'"
  shows "\<exists>new. good_peers st' = good_peers st @ new \<and>
     map pi_addr new = (if confirms nt a then [a] else [])"
  using assms
  by (auto simp: crawl_peer_def crawl_peer_try_def confirms_def Let_def split: sum.splits prod.splits if_splits)

lemma test_pq_handshake_reached:
  assumes "socket_exn env = None" "connect_exn env = None" "send_exn env = None"
    "recv_result env = Inr buf" "0 \<le> p" "p \<le> 65535"
  shows "test_pq_handshake env h p =
     (if 7 \<le> length buf \<and> take 4 buf = QTC_MAGIC_BYTES \<and> buf ! 6 = 0
      then \<lparr>capable = True, sock = SockOpen, plog = [HandshakeOk h p]\<rparr>
      else \<lparr>capable = False, sock = SockClosed, plog = []\<rparr>)"
  by (simp add: test_pq_handshake_def test_pq_handshake_try_reached [OF assms])

lemma test_pq_handshake_accepting:
  "test_pq_handshake accepting_peer h 8333 =
     \<lparr>capable = True, sock = SockOpen, plog = [HandshakeOk h 8333]\<rparr>"
  by (simp add: test_pq_handshake_reached [where buf = "QTC_MAGIC_BYTES @ [1, 0, 0]"]
      accepting_peer_def QTC_MAGIC_BYTES_def)

lemma test_pq_handshake_refusing:
  "test_pq_handshake refusing_peer h 8333 =
     \<lparr>capable = False, sock = SockOpen, plog = [HandshakeFailed h 8333 OSError]\<rparr>"
  by (simp add: test_pq_handshake_def test_pq_handshake_try_def sock_connect_def
      refusing_peer_def)

subsection \<open>Facts about the interleavings of a pass\<close>

lemma exec_Nil: "exec nt [] s = s"
  by (simp add: exec_def)

lemma exec_Cons: "exec nt (ev # evs) s = exec nt evs (step nt ev s)"
  by (simp add: exec_def)

lemma exec_append: "exec nt (xs @ ys) s = exec nt ys (exec nt xs s)"
  by (simp add: exec_def)

lemma pass_inv_init: "pass_inv nt st n frontier (pass_init st n frontier)"
  by (simp add: pass_inv_def pass_init_def)

lemma length_filter_remove1:
  "a \<in> set xs \<Longrightarrow>
     length (filter P (remove1 a xs)) + (if P a then 1 else 0) = length (filter P xs)"
  by (induction xs) auto

lemma step_Submit_inv:
  assumes "pass_inv nt st0 n frontier s"
  shows "pass_inv nt st0 n frontier (step nt Submit s)"
  using assms
  by (cases "todo s") (auto simp: pass_inv_def step_def)

lemma step_Start_inv:
  assumes "pass_inv nt st0 n frontier s"
  shows "pass_inv nt st0 n frontier (step nt Start s)"
  using assms
  by (cases "queue s") (auto simp: pass_inv_def step_def)

lemma step_Finish_inv:
  assumes inv: "pass_inv nt st0 n frontier s"
  shows "pass_inv nt st0 n frontier (step nt (Finish a) s)"
proof (cases "a \<in> set (running s)")
  case False
  then show ?thesis using inv by (simp add: step_def)
next
  case True
  obtain st' where st': "crawl_peer (nt a) (self s) a = Inr st'"
    using crawl_peer_total by blast
  obtain new1 where new1: "good_peers st' = good_peers (self s) @ new1"
    "map pi_addr new1 = (if confirms nt a then [a] else [])"
    using crawl_peer_good_peers [where nt = nt and a = a, OF st'] by blast
  obtain new where new: "good_peers (self s) = good_peers st0 @ new"
    "length new + length (filter (confirms nt) (running s))
       + length (filter (confirms nt) (queue s)) = length (filter (confirms nt) (futures s))"
    "distinct frontier \<longrightarrow> distinct (map pi_addr new @ running s @ queue s @ todo s)"
    using inv by (auto simp: pass_inv_def)
  have step: "step nt (Finish a) s = s\<lparr>self := st', running := remove1 a (running s)\<rparr>"
    using True st' by (simp add: step_def)
  have len1: "length new1 = (if confirms nt a then 1 else 0)"
    using new1(2) by (metis length_map list.size(3) length_Cons One_nat_def)
  have cnt: "length (new @ new1) + length (filter (confirms nt) (remove1 a (running s)))
       + length (filter (confirms nt) (queue s)) = length (filter (confirms nt) (futures s))"
    using new(2) length_filter_remove1 [OF True, of "confirms nt"] len1 by simp
  have dist: "distinct frontier \<longrightarrow>
      distinct (map pi_addr (new @ new1) @ remove1 a (running s) @ queue s @ todo s)"
  proof
    assume "distinct frontier"
    then have d: "distinct (map pi_addr new @ running s @ queue s @ todo s)"
      using new(3) by simp
    show "distinct (map pi_addr (new @ new1) @ remove1 a (running s) @ queue s @ todo s)"
    proof (cases "confirms nt a")
      case False
      then show ?thesis using d new1(2) by (auto dest: notin_set_remove1)
    next
      case c: True
      then have "map pi_addr new1 = [a]" using new1(2) by simp
      then show ?thesis using d True by (auto dest: notin_set_remove1)
    qed
  qed
  show ?thesis
    unfolding step pass_inv_def
    using inv crawl_peer_fields [OF st'] new(1) new1(1) cnt dist
    by (auto simp: pass_inv_def)
qed

lemma step_inv:
  "pass_inv nt st0 n frontier s \<Longrightarrow> pass_inv nt st0 n frontier (step nt ev s)"
  by (cases ev) (simp_all add: step_Submit_inv step_Start_inv step_Finish_inv)

lemma exec_inv:
  "pass_inv nt st0 n frontier s \<Longrightarrow> pass_inv nt st0 n frontier (exec nt evs s)"
  by (induction evs arbitrary: s) (simp_all add: exec_Nil exec_Cons step_inv)

lemma drain_inv:
  "pass_inv nt st0 n frontier s \<Longrightarrow> pass_inv nt st0 n frontier (drain nt s)"
  by (simp add: drain_def Let_def exec_inv)

lemma step_threads: "threads (step nt ev s) = threads s"
  by (cases ev) (auto simp: step_def split: list.splits sum.splits)

lemma exec_threads: "threads (exec nt evs s) = threads s"
  by (induction evs arbitrary: s) (simp_all add: exec_Nil exec_Cons step_threads)

lemma step_not_submitting: "\<not> submitting s \<Longrightarrow> \<not> submitting (step nt ev s)"
  by (cases ev) (auto simp: step_def split: list.splits sum.splits)

lemma exec_not_submitting: "\<not> submitting s \<Longrightarrow> \<not> submitting (exec nt evs s)"
  by (induction evs arbitrary: s) (simp_all add: exec_Nil exec_Cons step_not_submitting)

lemma step_Submit_progress:
  "\<not> submitting (step nt Submit s) \<or> length (todo (step nt Submit s)) < length (todo s)"
  by (auto simp: step_def split: list.splits)

lemma submit_all:
  "length (todo s) \<le> k \<Longrightarrow> \<not> submitting (exec nt (replicate (Suc k) Submit) s)"
proof (induction k arbitrary: s)
  case 0
  then show ?case by (auto simp: exec_Cons exec_Nil step_def)
next
  case (Suc k)
  have eq: "exec nt (replicate (Suc (Suc k)) Submit) s
      = exec nt (replicate (Suc k) Submit) (step nt Submit s)"
    by (simp add: exec_Cons)
  show ?case
  proof (cases "submitting (step nt Submit s)")
    case False
    then show ?thesis unfolding eq by (rule exec_not_submitting)
  next
    case True
    then have "length (todo (step nt Submit s)) < length (todo s)"
      using step_Submit_progress [of nt s] by blast
    then have "length (todo (step nt Submit s)) \<le> k" using Suc.prems by simp
    then show ?thesis unfolding eq by (rule Suc.IH)
  qed
qed

lemma step_Finish_running: "running (step nt (Finish a) s) = remove1 a (running s)"
  by (auto simp: step_def remove1_idem split: sum.splits)

lemma step_Finish_queue: "queue (step nt (Finish a) s) = queue s"
  by (auto simp: step_def split: sum.splits)

lemma step_Finish_submitting: "submitting (step nt (Finish a) s) = submitting s"
  by (auto simp: step_def split: sum.splits)

lemma finish_all:
  "running s = xs \<Longrightarrow>
     running (exec nt (map Finish xs) s) = [] \<and>
     queue (exec nt (map Finish xs) s) = queue s \<and>
     submitting (exec nt (map Finish xs) s) = submitting s"
proof (induction xs arbitrary: s)
  case Nil
  then show ?case by (simp add: exec_Nil)
next
  case (Cons a xs)
  have "running (step nt (Finish a) s) = xs"
    using Cons.prems by (simp add: step_Finish_running)
  from Cons.IH [OF this] show ?case
    by (simp add: exec_Cons step_Finish_queue step_Finish_submitting)
qed

lemma run_queued:
  "running s = [] \<Longrightarrow> 0 < threads s \<Longrightarrow> queue s = q \<Longrightarrow>
     running (exec nt (concat (map (\<lambda>a. [Start, Finish a]) q)) s) = [] \<and>
     queue (exec nt (concat (map (\<lambda>a. [Start, Finish a]) q)) s) = [] \<and>
     submitting (exec nt (concat (map (\<lambda>a. [Start, Finish a]) q)) s) = submitting s"
proof (induction q arbitrary: s)
  case Nil
  then show ?case by (simp add: exec_Nil)
next
  case (Cons a q)
  let ?s1 = "step nt Start s"
  let ?s2 = "step nt (Finish a) ?s1"
  have s1: "running ?s1 = [a]" "queue ?s1 = q" "submitting ?s1 = submitting s"
    using Cons.prems by (simp_all add: step_def)
  have s2: "running ?s2 = []" "queue ?s2 = q" "submitting ?s2 = submitting s"
    using s1 by (simp_all add: step_Finish_running step_Finish_queue step_Finish_submitting)
  have "0 < threads ?s2" using Cons.prems(2) by (simp add: step_threads)
  from Cons.IH [OF s2(1) this s2(2)] s2(3) show ?case
    by (simp add: exec_Cons)
qed

lemma drain_complete: "0 < threads s \<Longrightarrow> pass_complete (drain nt s)"
proof -
  assume pos: "0 < threads s"
  let ?s1 = "exec nt (replicate (Suc (length (todo s))) Submit) s"
  let ?s2 = "exec nt (map Finish (running ?s1)) ?s1"
  have a: "\<not> submitting ?s1" by (rule submit_all) simp
  have b: "running ?s2 = []" "\<not> submitting ?s2"
    using finish_all [of ?s1 "running ?s1" nt] a by simp_all
  have c: "0 < threads ?s2" using pos by (simp add: exec_threads)
  from run_queued [OF b(1) c refl, of nt] b(2) show ?thesis
    by (simp add: pass_complete_def drain_def Let_def)
qed

lemma pass_final_inv: "pass_inv (net env) st n (peer_order env) (pass_final env st n)"
  unfolding pass_final_def by (intro drain_inv exec_inv pass_inv_init)

lemma pass_final_complete: "0 < n \<Longrightarrow> pass_complete (pass_final env st n)"
  unfolding pass_final_def
  by (rule drain_complete) (simp add: exec_threads pass_init_def)

lemma pass_final_summary:
  assumes "0 < n"
  shows "\<exists>new. good_peers (self (pass_final env st n)) = good_peers st @ new \<and>
     length new = length (filter (confirms (net env)) (futures (pass_final env st n))) \<and>
     (distinct (peer_order env) \<longrightarrow> distinct (map pi_addr new))"
proof -
  let ?s = "pass_final env st n"
  have c: "running ?s = []" "queue ?s = []"
    using pass_final_complete [OF assms, of env st] by (simp_all add: pass_complete_def)
  obtain new where new: "good_peers (self ?s) = good_peers st @ new"
    "length new + length (filter (confirms (net env)) (running ?s))
       + length (filter (confirms (net env)) (queue ?s))
       = length (filter (confirms (net env)) (futures ?s))"
    "distinct (peer_order env) \<longrightarrow>
       distinct (map pi_addr new @ running ?s @ queue ?s @ todo ?s)"
    using pass_final_inv [of env st n] unfolding pass_inv_def by blast
  have "length new = length (filter (confirms (net env)) (futures ?s))"
    using new(2) c by simp
  moreover have "distinct (peer_order env) \<longrightarrow> distinct (map pi_addr new)"
    using new(3) by simp
  ultimately show ?thesis using new(1) by blast
qed

lemma pass_final_futures:
  "futures (pass_final env st n) @ todo (pass_final env st n) = peer_order env"
  using pass_final_inv [of env st n] by (simp add: pass_inv_def)

lemma pass_final_raised: "raised (pass_final env st n) = None"
  using pass_final_inv [of env st n] by (simp add: pass_inv_def)

lemma fold_add_known_peer:
  "fold (\<lambda>x. add_known_peer (f x)) xs st = st\<lparr>known_peers := known_peers st \<union> f ` set xs\<rparr>"
  by (induction xs arbitrary: st) (auto simp: add_known_peer_def)

lemma crawl_network_eq:
  "0 < n \<Longrightarrow> crawl_network env st n =
     (let s = pass_final env (add_seed_nodes (st\<lparr>log := log st @ [CrawlStarting]\<rparr>)) n
      in Inr ((self s)\<lparr>log := log (self s) @ [CrawlCompleted (length (good_peers (self s)))]\<rparr>))"
  by (simp add: crawl_network_def Let_def pass_final_raised)

lemma pass_inv_addrs_init: "pass_inv_addrs nt st (pass_init st n frontier)"
  by (simp add: pass_inv_addrs_def pass_init_def)

lemma step_Submit_inv_addrs:
  "pass_inv_addrs nt st0 s \<Longrightarrow> pass_inv_addrs nt st0 (step nt Submit s)"
  by (cases "todo s") (auto simp: pass_inv_addrs_def step_def)

lemma step_Start_inv_addrs:
  "pass_inv_addrs nt st0 s \<Longrightarrow> pass_inv_addrs nt st0 (step nt Start s)"
  by (cases "queue s") (auto simp: pass_inv_addrs_def step_def)

lemma step_Finish_inv_addrs:
  assumes inv: "pass_inv_addrs nt st0 s"
  shows "pass_inv_addrs nt st0 (step nt (Finish a) s)"
proof (cases "a \<in> set (running s)")
  case False
  then show ?thesis using inv by (simp add: step_def)
next
  case True
  obtain st' where st': "crawl_peer (nt a) (self s) a = Inr st'"
    using crawl_peer_total by blast
  obtain new1 where new1: "good_peers st' = good_peers (self s) @ new1"
    "map pi_addr new1 = (if confirms nt a then [a] else [])"
    using crawl_peer_good_peers [where nt = nt and a = a, OF st'] by blast
  have step: "step nt (Finish a) s = s\<lparr>self := st', running := remove1 a (running s)\<rparr>"
    using True st' by (simp add: step_def)
  have fut: "a \<in> set (futures s)"
    using inv True by (auto simp: pass_inv_addrs_def)
  have "pi_addr ` set new1 = set (map pi_addr new1)" by simp
  also have "\<dots> \<subseteq> set (filter (confirms nt) (futures s))"
    unfolding new1(2) using fut by auto
  finally have n1: "pi_addr ` set new1 \<subseteq> set (filter (confirms nt) (futures s))" .
  have "set (drop (length (good_peers st0)) (good_peers st'))
      \<subseteq> set (drop (length (good_peers st0)) (good_peers (self s))) \<union> set new1"
    unfolding new1(1) by (auto dest: in_set_dropD)
  then have "pi_addr ` set (drop (length (good_peers st0)) (good_peers st'))
      \<subseteq> set (filter (confirms nt) (futures s))"
    using n1 inv unfolding pass_inv_addrs_def by blast
  moreover have "set (remove1 a (running s)) \<union> set (queue s) \<subseteq> set (futures s)"
    using inv set_remove1_subset [of a "running s"] unfolding pass_inv_addrs_def by blast
  ultimately show ?thesis unfolding step pass_inv_addrs_def by simp
qed

lemma step_inv_addrs:
  "pass_inv_addrs nt st0 s \<Longrightarrow> pass_inv_addrs nt st0 (step nt ev s)"
  by (cases ev) (simp_all add: step_Submit_inv_addrs step_Start_inv_addrs step_Finish_inv_addrs)

lemma exec_inv_addrs:
  "pass_inv_addrs nt st0 s \<Longrightarrow> pass_inv_addrs nt st0 (exec nt evs s)"
  by (induction evs arbitrary: s) (simp_all add: exec_Nil exec_Cons step_inv_addrs)

lemma drain_inv_addrs:
  "pass_inv_addrs nt st0 s \<Longrightarrow> pass_inv_addrs nt st0 (drain nt s)"
  by (simp add: drain_def Let_def exec_inv_addrs)

lemma pass_final_inv_addrs: "pass_inv_addrs (net env) st (pass_final env st n)"
  unfolding pass_final_def by (intro drain_inv_addrs exec_inv_addrs pass_inv_addrs_init)

lemma pass_final_new_addrs:
  assumes "good_peers (self (pass_final env st n)) = good_peers st @ new"
  shows "pi_addr ` set new \<subseteq> set (filter (confirms (net env)) (futures (pass_final env st n)))"
  using pass_final_inv_addrs [of env st n] assms by (simp add: pass_inv_addrs_def)

lemma pass_final_fields:
  "known_peers (self (pass_final env st n)) = known_peers st"
  "max_peers (self (pass_final env st n)) = max_peers st"
  "output_file (self (pass_final env st n)) = output_file st"
  "written (self (pass_final env st n)) = written st"
  using pass_final_inv [of env st n] by (simp_all add: pass_inv_def)

lemma confirms_parse_error: "parse_peer_addr a = Inl e \<Longrightarrow> \<not> confirms nt a"
  by (simp add: confirms_def)

lemma step_cap_reached:
  assumes "max_peers (self s) \<le> int (length (good_peers (self s)))"
    "queue s = []" "running s = []"
  shows "self (step nt ev s) = self s \<and> futures (step nt ev s) = futures s \<and>
     queue (step nt ev s) = [] \<and> running (step nt ev s) = []"
  using assms by (cases ev) (auto simp: step_def split: list.splits)

lemma exec_cap_reached:
  assumes "max_peers (self s) \<le> int (length (good_peers (self s)))"
    "queue s = []" "running s = []"
  shows "self (exec nt evs s) = self s \<and> futures (exec nt evs s) = futures s \<and>
     queue (exec nt evs s) = [] \<and> running (exec nt evs s) = []"
  using assms
proof (induction evs arbitrary: s)
  case Nil
  then show ?case by (simp add: exec_Nil)
next
  case (Cons ev evs)
  have st: "self (step nt ev s) = self s" "futures (step nt ev s) = futures s"
    "queue (step nt ev s) = []" "running (step nt ev s) = []"
    using step_cap_reached [OF Cons.prems, of nt ev] by simp_all
  have "max_peers (self (step nt ev s)) \<le> int (length (good_peers (self (step nt ev s))))"
    using Cons.prems(1) st(1) by simp
  from Cons.IH [OF this st(3) st(4)] st show ?case
    by (simp add: exec_Cons)
qed

lemma drain_cap_reached:
  assumes "max_peers (self s) \<le> int (length (good_peers (self s)))"
    "queue s = []" "running s = []"
  shows "self (drain nt s) = self s \<and> futures (drain nt s) = futures s"
proof -
  let ?s1 = "exec nt (replicate (Suc (length (todo s))) Submit) s"
  let ?s2 = "exec nt (map Finish (running ?s1)) ?s1"
  have s1: "self ?s1 = self s" "futures ?s1 = futures s" "queue ?s1 = []" "running ?s1 = []"
    using exec_cap_reached [OF assms, of nt] by simp_all
  have s2: "?s2 = ?s1" using s1(4) by (simp add: exec_Nil)
  show ?thesis
    using s1 by (simp add: drain_def Let_def exec_Nil)
qed

lemma pass_final_cap_reached:
  assumes "max_peers st \<le> int (length (good_peers st))"
  shows "self (pass_final env st n) = st \<and> futures (pass_final env st n) = []"
proof -
  let ?s0 = "pass_init st n (peer_order env)"
  let ?s1 = "exec (net env) (sched env) ?s0"
  have i: "max_peers (self ?s0) \<le> int (length (good_peers (self ?s0)))"
    "queue ?s0 = []" "running ?s0 = []" "self ?s0 = st" "futures ?s0 = []"
    using assms by (simp_all add: pass_init_def)
  have e: "self ?s1 = st" "futures ?s1 = []" "queue ?s1 = []" "running ?s1 = []"
    using exec_cap_reached [OF i(1,2,3), of "net env" "sched env"] i(4,5) by simp_all
  have "max_peers (self ?s1) \<le> int (length (good_peers (self ?s1)))"
    using assms e(1) by simp
  from drain_cap_reached [OF this e(3) e(4), of "net env"] e show ?thesis
    by (simp add: pass_final_def)
qed

lemma distinct_count_list_le: "distinct xs \<Longrightarrow> count_list xs a \<le> 1"
  by (induction xs) (auto simp: count_list_0_iff)

lemma pass_final_futures_distinct:
  assumes "distinct (peer_order env)"
  shows "distinct (futures (pass_final env st n))"
proof -
  have "distinct (futures (pass_final env st n) @ todo (pass_final env st n))"
    using assms by (simp only: pass_final_futures)
  then show ?thesis by simp
qed

lemma pass_final_futures_length:
  "length (futures (pass_final env st n)) \<le> length (peer_order env)"
proof -
  have "length (futures (pass_final env st n) @ todo (pass_final env st n))
      = length (peer_order env)"
    by (simp only: pass_final_futures)
  then show ?thesis by simp
qed

lemma crawl_peer_parse_error:
  "parse_peer_addr a = Inl e \<Longrightarrow>
     crawl_peer penv st a = Inr (st\<lparr>log := log st @ [CrawlError a e]\<rparr>)"
  by (simp add: crawl_peer_def crawl_peer_try_def)

subsection \<open>Facts about seeding\<close>

lemma add_seed_nodes_eq:
  "add_seed_nodes st =
     st\<lparr>known_peers := known_peers st \<union> (\<lambda>seed. seed @ '':'' @ py_str DEFAULT_PORT) ` set seeds\<rparr>"
  unfolding add_seed_nodes_def by (rule fold_add_known_peer)

lemma py_str_DEFAULT_PORT: "py_str DEFAULT_PORT = ''8333''"
  by (simp add: py_str_def DEFAULT_PORT_def str_nat.simps)

lemma seed_addresses:
  "(\<lambda>seed. seed @ '':'' @ py_str DEFAULT_PORT) ` set seeds =
     {''seed1.qtc.org:8333'', ''seed2.qtc.org:8333'', ''seed3.qtc.org:8333'', ''127.0.0.1:8333''}"
  unfolding py_str_DEFAULT_PORT seeds_def by simp

lemma add_seed_nodes_known_peers:
  "known_peers (add_seed_nodes st) = known_peers st \<union>
     {''seed1.qtc.org:8333'', ''seed2.qtc.org:8333'', ''seed3.qtc.org:8333'', ''127.0.0.1:8333''}"
  unfolding add_seed_nodes_eq seed_addresses by simp

lemma add_seed_nodes_fields:
  "good_peers (add_seed_nodes st) = good_peers st"
  "max_peers (add_seed_nodes st) = max_peers st"
  "output_file (add_seed_nodes st) = output_file st"
  "written (add_seed_nodes st) = written st"
  "log (add_seed_nodes st) = log st"
  by (simp_all add: add_seed_nodes_eq)

lemma add_seed_nodes_idem: "add_seed_nodes (add_seed_nodes st) = add_seed_nodes st"
  by (simp add: add_seed_nodes_eq Un_assoc)

subsection \<open>Evaluating the concrete passes\<close>

lemma parse_seed_addrs:
  "parse_peer_addr ''seed1.qtc.org:8333'' = Inr (''seed1.qtc.org'', 8333)"
  "parse_peer_addr ''seed2.qtc.org:8333'' = Inr (''seed2.qtc.org'', 8333)"
  "parse_peer_addr ''seed3.qtc.org:8333'' = Inr (''seed3.qtc.org'', 8333)"
  "parse_peer_addr ''127.0.0.1:8333'' = Inr (''127.0.0.1'', 8333)"
  by (simp_all add: parse_peer_addr_def rsplit_colon_def py_int_def py_strip_def py_isspace_def
      is_digit_def digits_value_def)

lemma clock_accepting_peer: "clock accepting_peer = 1700000000"
  by (simp add: accepting_peer_def)

lemma crawl_peer_accepting:
  assumes "parse_peer_addr a = Inr (h, 8333)"
  shows "crawl_peer accepting_peer st a =
     Inr (if Suc (length (good_peers st)) mod 10 = 0
          then st\<lparr>log := log st @ [HandshakeOk h 8333, FoundPeers (Suc (length (good_peers st)))],
                 good_peers := good_peers st @
                   [\<lparr>pi_addr = a, pi_host = h, pi_port = 8333, pq_capable = True,
                     last_seen = 1700000000, success_count = 1\<rparr>]\<rparr>
          else st\<lparr>log := log st @ [HandshakeOk h 8333],
                 good_peers := good_peers st @
                   [\<lparr>pi_addr = a, pi_host = h, pi_port = 8333, pq_capable = True,
                     last_seen = 1700000000, success_count = 1\<rparr>]\<rparr>)"
  using assms
  by (simp add: crawl_peer_def crawl_peer_try_def test_pq_handshake_accepting Let_def
      clock_accepting_peer)

lemma crawl_peer_refusing:
  assumes "parse_peer_addr a = Inr (h, 8333)"
  shows "crawl_peer refusing_peer st a = Inr (st\<lparr>log := log st @ [HandshakeFailed h 8333 OSError]\<rparr>)"
  using assms
  by (simp add: crawl_peer_def crawl_peer_try_def test_pq_handshake_refusing Let_def)

lemmas pass_eval =
  pass_final_def pass_init_def drain_def exec_def step_def Let_def
  crawl_peer_accepting [OF parse_seed_addrs(1)] crawl_peer_accepting [OF parse_seed_addrs(2)]
  crawl_peer_accepting [OF parse_seed_addrs(3)] crawl_peer_accepting [OF parse_seed_addrs(4)]
  crawl_peer_refusing [OF parse_seed_addrs(1)] crawl_peer_refusing [OF parse_seed_addrs(2)]
  crawl_peer_refusing [OF parse_seed_addrs(3)] crawl_peer_refusing [OF parse_seed_addrs(4)]

lemma crawl_peer_confirms:
  assumes "confirms nt a"
  shows "\<exists>st2. crawl_peer (nt a) st a = Inr st2
     \<and> length (good_peers st2) = Suc (length (good_peers st))"
proof -
  obtain st2 where st2: "crawl_peer (nt a) st a = Inr st2"
    using crawl_peer_total by blast
  obtain new where new: "good_peers st2 = good_peers st @ new" "map pi_addr new = [a]"
    using crawl_peer_good_peers [where nt = nt and a = a, OF st2] assms by auto
  have "length new = 1"
    using new(2) by (metis length_map length_Cons list.size(3) One_nat_def)
  then show ?thesis using st2 new(1) by simp
qed

lemma crawl_network_summary:
  assumes "0 < n"
  shows "\<exists>st' new. crawl_network env st n = Inr st'
     \<and> good_peers st' = good_peers st @ new
     \<and> length new = length (filter (confirms (net env))
          (futures (pass_final env (add_seed_nodes (st\<lparr>log := log st @ [CrawlStarting]\<rparr>)) n)))
     \<and> (distinct (peer_order env) \<longrightarrow> distinct (map pi_addr new))
     \<and> known_peers st' = known_peers (add_seed_nodes (st\<lparr>log := log st @ [CrawlStarting]\<rparr>))
     \<and> max_peers st' = max_peers st"
proof -
  let ?st1 = "add_seed_nodes (st\<lparr>log := log st @ [CrawlStarting]\<rparr>)"
  let ?s = "pass_final env ?st1 n"
  let ?st' = "(self ?s)\<lparr>log := log (self ?s) @ [CrawlCompleted (length (good_peers (self ?s)))]\<rparr>"
  obtain new where new: "good_peers (self ?s) = good_peers ?st1 @ new"
    "length new = length (filter (confirms (net env)) (futures ?s))"
    "distinct (peer_order env) \<longrightarrow> distinct (map pi_addr new)"
    using pass_final_summary [OF assms, of env ?st1] by blast
  have c: "crawl_network env st n = Inr ?st'"
    using assms by (simp add: crawl_network_eq Let_def)
  have g: "good_peers ?st' = good_peers st @ new"
    using new(1) by (simp add: add_seed_nodes_fields)
  have k: "known_peers ?st' = known_peers ?st1" "max_peers ?st' = max_peers st"
    by (simp_all add: pass_final_fields add_seed_nodes_fields)
  show ?thesis using c g new(2,3) k by blast
qed

lemma race_pass_3:
  "map pi_addr (good_peers (self (pass_final race_env
      (add_seed_nodes ((seeder_init ''qtc_peers.json'' 1)\<lparr>log := [CrawlStarting]\<rparr>)) 3)))
   = [''seed1.qtc.org:8333'', ''seed2.qtc.org:8333'', ''seed3.qtc.org:8333'']"
  by (simp add: pass_eval race_env_def race_net_def seed_order_def add_seed_nodes_eq
      seeder_init_def)

lemma race_pass_1:
  "map pi_addr (good_peers (self (pass_final race_env
      (add_seed_nodes ((seeder_init ''qtc_peers.json'' 1)\<lparr>log := [CrawlStarting]\<rparr>)) 1)))
   = [''seed1.qtc.org:8333'', ''seed2.qtc.org:8333'', ''seed3.qtc.org:8333'']"
  by (simp add: pass_eval race_env_def race_net_def seed_order_def add_seed_nodes_eq
      seeder_init_def)

lemma length_via_map: "map f xs = ys \<Longrightarrow> length xs = length ys"
  by auto

lemma race_futures_3:
  "futures (pass_final race_env
      (add_seed_nodes ((seeder_init ''qtc_peers.json'' 1)\<lparr>log := [CrawlStarting]\<rparr>)) 3)
   = seed_order"
  by (simp add: pass_eval race_env_def race_net_def seed_order_def add_seed_nodes_eq
      seeder_init_def)

lemma confirms_race_net:
  "confirms race_net ''seed1.qtc.org:8333''"
  "confirms race_net ''seed2.qtc.org:8333''"
  "confirms race_net ''seed3.qtc.org:8333''"
  "\<not> confirms race_net ''127.0.0.1:8333''"
  by (simp_all add: confirms_def parse_seed_addrs race_net_def test_pq_handshake_accepting
      test_pq_handshake_refusing)

lemma seed_frontier_order:
  "known_peers st = {} \<Longrightarrow> frontier_order (add_seed_nodes st) seed_order"
  by (simp add: frontier_order_def seed_order_def add_seed_nodes_known_peers)

lemma save_peers_good_peers:
  "save_peers env st = Inr st' \<Longrightarrow> good_peers st' = good_peers st"
  by (auto simp: save_peers_def Let_def split: option.splits)


lemma after_passes_prefix:
  "after_passes envs interval i k st = Inr st' \<Longrightarrow>
     \<exists>new. good_peers st' = good_peers st @ new"
proof (induction k arbitrary: i st)
  case 0
  then show ?case by simp
next
  case (Suc k)
  obtain st1 new1 where c: "crawl_network (envs i) st 50 = Inr st1"
    "good_peers st1 = good_peers st @ new1"
    using crawl_network_summary [of 50 "envs i" st] by auto
  obtain st2 where s: "save_peers (envs i) st1 = Inr st2"
    using Suc.prems c(1) by (auto split: sum.splits)
  have sl: "time_sleep interval = Inr ()"
    using Suc.prems c(1) s by (auto simp: Let_def split: sum.splits)
  have "after_passes envs interval (Suc i) k (st2\<lparr>log := log st2 @ [Sleeping interval]\<rparr>) = Inr st'"
    using Suc.prems c(1) s sl by (simp add: Let_def)
  from Suc.IH [OF this] obtain new2 where
    "good_peers st' = good_peers (st2\<lparr>log := log st2 @ [Sleeping interval]\<rparr>) @ new2"
    by blast
  then have "good_peers st' = good_peers st @ (new1 @ new2)"
    using save_peers_good_peers [OF s] c(2) by simp
  then show ?case by blast
qed

lemma local_pass:
  assumes "length (good_peers st) < 8" "max_peers st = 1000"
  shows "map pi_addr (good_peers (self (pass_final local_env (add_seed_nodes st) 50)))
     = map pi_addr (good_peers st) @ [''127.0.0.1:8333'']"
  using assms
  by (simp add: pass_eval local_env_def local_net_def seed_order_def add_seed_nodes_eq)

lemma local_iteration:
  assumes "length (good_peers st) < 8" "max_peers st = 1000"
  shows "\<exists>st3. after_passes (\<lambda>i. local_env) 3600 i (Suc k) st
         = after_passes (\<lambda>i. local_env) 3600 (Suc i) k st3
       \<and> map pi_addr (good_peers st3) = map pi_addr (good_peers st) @ [''127.0.0.1:8333'']
       \<and> max_peers st3 = 1000"
proof -
  let ?st0 = "st\<lparr>log := log st @ [CrawlStarting]\<rparr>"
  let ?s = "pass_final local_env (add_seed_nodes ?st0) 50"
  let ?st1 = "(self ?s)\<lparr>log := log (self ?s) @ [CrawlCompleted (length (good_peers (self ?s)))]\<rparr>"
  have c: "crawl_network local_env st 50 = Inr ?st1"
    by (simp add: crawl_network_eq Let_def)
  have g1: "map pi_addr (good_peers ?st1) = map pi_addr (good_peers st) @ [''127.0.0.1:8333'']"
    using local_pass [of ?st0] assms by simp
  have m1: "max_peers ?st1 = 1000"
    using assms(2) by (simp add: pass_final_fields add_seed_nodes_fields)
  obtain st2 where s: "save_peers local_env ?st1 = Inr st2"
    by (simp add: save_peers_def local_env_def)
  have g2: "good_peers st2 = good_peers ?st1" "max_peers st2 = max_peers ?st1"
    using s by (auto simp: save_peers_def Let_def split: option.splits)
  have sl: "time_sleep 3600 = Inr ()"
    by (simp add: time_sleep_def)
  let ?st3 = "st2\<lparr>log := log st2 @ [Sleeping 3600]\<rparr>"
  have "after_passes (\<lambda>i. local_env) 3600 i (Suc k) st
      = after_passes (\<lambda>i. local_env) 3600 (Suc i) k ?st3"
    using c s sl by (simp add: Let_def)
  moreover have "map pi_addr (good_peers ?st3)
      = map pi_addr (good_peers st) @ [''127.0.0.1:8333'']"
    using g1 g2(1) by simp
  moreover have "max_peers ?st3 = 1000"
    using m1 g2(2) by simp
  ultimately show ?thesis by blast
qed

lemma local_two_passes:
  "map_sum id (\<lambda>st'. map pi_addr (good_peers st'))
      (after_passes (\<lambda>i. local_env) 3600 0 (Suc (Suc 0)) (seeder_init ''qtc_peers.json'' 1000))
   = Inr [''127.0.0.1:8333'', ''127.0.0.1:8333'']"
proof -
  let ?st = "seeder_init ''qtc_peers.json'' 1000"
  have i0: "length (good_peers ?st) < 8" "max_peers ?st = 1000" "good_peers ?st = []"
    by (simp_all add: seeder_init_def)
  obtain st3 where a: "after_passes (\<lambda>i. local_env) 3600 0 (Suc (Suc 0)) ?st
         = after_passes (\<lambda>i. local_env) 3600 (Suc 0) (Suc 0) st3"
    "map pi_addr (good_peers st3) = [''127.0.0.1:8333'']" "max_peers st3 = 1000"
    using local_iteration [OF i0(1,2), of 0 "Suc 0"] i0(3) by auto
  have "length (map pi_addr (good_peers st3)) = 1"
    unfolding a(2) by simp
  then have "length (good_peers st3) < 8"
    by simp
  from local_iteration [OF this a(3), of "Suc 0" 0] obtain st6 where
    b: "after_passes (\<lambda>i. local_env) 3600 (Suc 0) (Suc 0) st3
         = after_passes (\<lambda>i. local_env) 3600 (Suc (Suc 0)) 0 st6"
    "map pi_addr (good_peers st6) = map pi_addr (good_peers st3) @ [''127.0.0.1:8333'']"
    by auto
  show ?thesis
    using a(1,2) b by simp
qed

lemma crawl_network_50: "\<exists>st1. crawl_network env st 50 = Inr st1"
  by (simp add: crawl_network_eq Let_def)



lemma run_continuous_sleep_fails:
  assumes "write_exn (envs i) = None" "time_sleep interval = Inl e"
  shows "\<exists>st3. run_continuous envs interval i st = Some (e, i, st3)"
proof -
  obtain st1 where c: "crawl_network (envs i) st 50 = Inr st1"
    using crawl_network_50 by blast
  obtain st2 where s: "save_peers (envs i) st1 = Inr st2"
    using assms(1) by (simp add: save_peers_def)
  have "run_continuous envs interval i st
      = Some (e, i, st2\<lparr>log := log st2 @ [Sleeping interval]\<rparr>)"
    using c s assms(2) by (subst run_continuous.simps) (simp add: Let_def)
  then show ?thesis by blast
qed

text \<open>
  The loop returns only when a write or the sleep fails: while every write succeeds and
  the interval is one \<open>time.sleep\<close> accepts, it runs forever.
\<close>

lemma run_continuous_returns_only_on_failure:
  assumes "run_continuous envs interval i st = Some r"
  shows "(\<exists>k e. write_exn (envs (i + k)) = Some e) \<or> (\<exists>e. time_sleep interval = Inl e)"
proof (rule run_continuous.raw_induct
    [where P = "\<lambda>envs interval i st r.
       (\<exists>k e. write_exn (envs (i + k)) = Some e) \<or> (\<exists>e. time_sleep interval = Inl e)",
     OF _ assms])
  fix f :: "(nat \<Rightarrow> pass_env) \<Rightarrow> int \<Rightarrow> nat \<Rightarrow> seeder \<Rightarrow> (py_exn \<times> nat \<times> seeder) option"
    and envs interval i st r
  assume ih: "\<And>envs interval i st r. f envs interval i st = Some r \<Longrightarrow>
      (\<exists>k e. write_exn (envs (i + k)) = Some e) \<or> (\<exists>e. time_sleep interval = Inl e)"
    and eq: "(case crawl_network (envs i) st 50 of
        Inl e \<Rightarrow> Some (e, i, st)
      | Inr st1 \<Rightarrow>
         (case save_peers (envs i) st1 of
            Inl e \<Rightarrow> Some (e, i, st1)
          | Inr st2 \<Rightarrow>
             (let st3 = st2\<lparr>log := log st2 @ [Sleeping interval]\<rparr>
              in case time_sleep interval of
                   Inl e \<Rightarrow> Some (e, i, st3)
                 | Inr _ \<Rightarrow> f envs interval (Suc i) st3))) = Some r"
  show "(\<exists>k e. write_exn (envs (i + k)) = Some e) \<or> (\<exists>e. time_sleep interval = Inl e)"
  proof (cases "write_exn (envs i)")
    case (Some e)
    then have "write_exn (envs (i + 0)) = Some e" by simp
    then show ?thesis by blast
  next
    case None
    show ?thesis
    proof (cases "time_sleep interval")
      case (Inl e)
      then show ?thesis by blast
    next
      case (Inr u)
      obtain st1 where c: "crawl_network (envs i) st 50 = Inr st1"
        using crawl_network_50 by blast
      obtain st2 where s: "save_peers (envs i) st1 = Inr st2"
        using None by (simp add: save_peers_def)
      have "f envs interval (Suc i) (st2\<lparr>log := log st2 @ [Sleeping interval]\<rparr>) = Some r"
        using eq c s Inr by (simp add: Let_def)
      then have "(\<exists>k e. write_exn (envs (Suc i + k)) = Some e)
          \<or> (\<exists>e. time_sleep interval = Inl e)"
        by (rule ih)
      then have "\<exists>k e. write_exn (envs (Suc i + k)) = Some e"
        using Inr by simp
      then obtain k e where "write_exn (envs (Suc i + k)) = Some e"
        by blast
      then have "write_exn (envs (i + Suc k)) = Some e" by simp
      then show ?thesis by blast
    qed
  qed
qed

lemma run_continuous_forever:
  assumes "\<forall>j. write_exn (envs j) = None" "time_sleep interval = Inr ()"
  shows "run_continuous envs interval i st = None"
proof (cases "run_continuous envs interval i st")
  case None
  then show ?thesis .
next
  case (Some r)
  then have "(\<exists>k e. write_exn (envs (i + k)) = Some e) \<or> (\<exists>e. time_sleep interval = Inl e)"
    by (rule run_continuous_returns_only_on_failure)
  then show ?thesis using assms by simp
qed

subsection \<open>Addresses that do not parse\<close>

lemma crawl_peer_log:
  "crawl_peer penv st a = Inr st' \<Longrightarrow> \<exists>l. log st' = log st @ l"
  by (auto simp: crawl_peer_def crawl_peer_try_def Let_def split: sum.splits prod.splits if_splits)

lemma pass_inv_log_init: "pass_inv_log (pass_init st n frontier)"
  by (simp add: pass_inv_log_def pass_init_def)

lemma step_Submit_inv_log: "pass_inv_log s \<Longrightarrow> pass_inv_log (step nt Submit s)"
  by (cases "todo s") (auto simp: pass_inv_log_def step_def)

lemma step_Start_inv_log: "pass_inv_log s \<Longrightarrow> pass_inv_log (step nt Start s)"
  by (cases "queue s") (auto simp: pass_inv_log_def step_def)

lemma step_Finish_inv_log:
  assumes inv: "pass_inv_log s"
  shows "pass_inv_log (step nt (Finish b) s)"
proof (cases "b \<in> set (running s)")
  case False
  then show ?thesis using inv by (simp add: step_def)
next
  case True
  obtain st' where st': "crawl_peer (nt b) (self s) b = Inr st'"
    using crawl_peer_total by blast
  obtain l where l: "log st' = log (self s) @ l"
    using crawl_peer_log [OF st'] by blast
  have step: "step nt (Finish b) s = s\<lparr>self := st', running := remove1 b (running s)\<rparr>"
    using True st' by (simp add: step_def)
  have "a \<in> set (remove1 b (running s)) \<or> a \<in> set (queue s) \<or>
        (\<forall>e. parse_peer_addr a = Inl e \<longrightarrow> CrawlError a e \<in> set (log st'))"
    if a: "a \<in> set (futures s)" for a
  proof (cases "a = b")
    case eq: True
    have "CrawlError b e \<in> set (log st')" if pe: "parse_peer_addr b = Inl e" for e
    proof -
      have "crawl_peer (nt b) (self s) b = Inr ((self s)\<lparr>log := log (self s) @ [CrawlError b e]\<rparr>)"
        using pe by (rule crawl_peer_parse_error)
      then have "st' = (self s)\<lparr>log := log (self s) @ [CrawlError b e]\<rparr>"
        using st' by simp
      then show ?thesis by simp
    qed
    then show ?thesis using eq by blast
  next
    case ne: False
    have "a \<in> set (running s) \<or> a \<in> set (queue s) \<or>
        (\<forall>e. parse_peer_addr a = Inl e \<longrightarrow> CrawlError a e \<in> set (log (self s)))"
      using inv a unfolding pass_inv_log_def by blast
    then show ?thesis
      using ne l by auto
  qed
  then show ?thesis
    unfolding step pass_inv_log_def by simp
qed

lemma step_inv_log: "pass_inv_log s \<Longrightarrow> pass_inv_log (step nt ev s)"
  by (cases ev) (simp_all add: step_Submit_inv_log step_Start_inv_log step_Finish_inv_log)

lemma exec_inv_log: "pass_inv_log s \<Longrightarrow> pass_inv_log (exec nt evs s)"
  by (induction evs arbitrary: s) (simp_all add: exec_Nil exec_Cons step_inv_log)

lemma drain_inv_log: "pass_inv_log s \<Longrightarrow> pass_inv_log (drain nt s)"
  by (simp add: drain_def Let_def exec_inv_log)

lemma pass_final_inv_log: "pass_inv_log (pass_final env st n)"
  unfolding pass_final_def by (intro drain_inv_log exec_inv_log pass_inv_log_init)

lemma pass_final_error_logged:
  assumes "0 < n" "a \<in> set (futures (pass_final env st n))" "parse_peer_addr a = Inl e"
  shows "CrawlError a e \<in> set (log (self (pass_final env st n)))"
proof -
  have "running (pass_final env st n) = []" "queue (pass_final env st n) = []"
    using pass_final_complete [OF assms(1), of env st] by (simp_all add: pass_complete_def)
  then show ?thesis
    using pass_final_inv_log [of env st n] assms(2,3) unfolding pass_inv_log_def by auto
qed

lemma parse_peer_addr_whitespace:
  "parse_peer_addr (''127.0.0.1:'' @ [CHR 0xA0] @ ''8333'' @ [CHR 0x85]) = Inr (''127.0.0.1'', 8333)"
  "parse_peer_addr (''127.0.0.1: 8333'' @ [CHR 0x0A]) = Inr (''127.0.0.1'', 8333)"
  "parse_peer_addr (''127.0.0.1:'' @ [CHR 0x1C] @ ''8333'') = Inl ValueError"
  "parse_peer_addr ''127.0.0.1:8_333'' = Inr (''127.0.0.1'', 8333)"
  "parse_peer_addr ''127.0.0.1:83 33'' = Inl ValueError"
  by (simp_all add: parse_peer_addr_def rsplit_colon_def py_int_def py_strip_def py_isspace_def
      is_digit_def digits_value_def)

lemma parse_malformed:
  "parse_peer_addr ''localhost'' = Inl ValueError"
  "parse_peer_addr ''example.org:http'' = Inl ValueError"
  by (simp_all add: parse_peer_addr_def rsplit_colon_def py_int_def py_strip_def py_isspace_def
      is_digit_def)

lemma malformed_pass:
  "futures (pass_final malformed_env
      (add_seed_nodes ((seeder_init ''qtc_peers.json'' 1000)
         \<lparr>known_peers := {''localhost''}, log := [CrawlStarting]\<rparr>)) 50)
   = ''localhost'' # seed_order"
  by (simp add: pass_eval crawl_peer_parse_error [OF parse_malformed(1)] malformed_env_def
      local_env_def local_net_def seed_order_def add_seed_nodes_eq seeder_init_def)

lemma malformed_frontier:
  "frontier_order
     (add_seed_nodes ((seeder_init ''qtc_peers.json'' 1000)\<lparr>known_peers := {''localhost''}\<rparr>))
     (peer_order malformed_env)"
  by (auto simp: frontier_order_def malformed_env_def local_env_def seed_order_def
      add_seed_nodes_known_peers seeder_init_def)

subsection \<open>What a pass records\<close>

text \<open>
  The cap is tested before each submission and nowhere else: a submission is skipped
  exactly when \<open>good_peers\<close> has reached \<open>max_peers\<close>, whatever is queued or running, and
  \<open>crawl_peer\<close> appends the record of every successful probe. A pass with at least one
  worker ends with the count it started with plus the number of submitted addresses whose
  probe succeeded.
\<close>

lemma step_Submit_cap_reached:
  "max_peers (self s) \<le> int (length (good_peers (self s))) \<Longrightarrow>
     futures (step nt Submit s) = futures s \<and> queue (step nt Submit s) = queue s"
  by (auto simp: step_def split: list.splits)

lemma step_Submit_below_cap:
  "submitting s \<Longrightarrow> todo s = a # rest \<Longrightarrow>
   int (length (good_peers (self s))) < max_peers (self s) \<Longrightarrow>
     futures (step nt Submit s) = futures s @ [a] \<and> queue (step nt Submit s) = queue s @ [a]"
  by (simp add: step_def)

lemma pass_confirmed_count:
  assumes "0 < n"
    and "frontier_order (add_seed_nodes (st\<lparr>log := log st @ [CrawlStarting]\<rparr>)) (peer_order env)"
  shows "(\<exists>st'. crawl_network env st n = Inr st'
          \<and> length (good_peers st') = length (good_peers st)
              + length (filter (confirms (net env))
                  (futures (pass_final env
                     (add_seed_nodes (st\<lparr>log := log st @ [CrawlStarting]\<rparr>)) n)))
          \<and> length (good_peers st') \<le> length (good_peers st) + card (known_peers st')
          \<and> (max_peers st \<le> int (length (good_peers st)) \<longrightarrow> good_peers st' = good_peers st))
     \<and> (confirms (net env) a \<longrightarrow>
          (\<exists>st2. crawl_peer (net env a) st a = Inr st2
             \<and> length (good_peers st2) = Suc (length (good_peers st))))"
proof (intro conjI impI)
  let ?st1 = "add_seed_nodes (st\<lparr>log := log st @ [CrawlStarting]\<rparr>)"
  let ?s = "pass_final env ?st1 n"
  obtain st' new where r: "crawl_network env st n = Inr st'"
    "good_peers st' = good_peers st @ new"
    "length new = length (filter (confirms (net env)) (futures ?s))"
    "known_peers st' = known_peers ?st1"
    using crawl_network_summary [OF assms(1), of env st] by blast
  have fo: "distinct (peer_order env)" "set (peer_order env) = known_peers ?st1"
    using assms(2) by (simp_all add: frontier_order_def)
  have "length new \<le> length (futures ?s)"
    unfolding r(3) by (rule length_filter_le)
  also have "\<dots> \<le> length (peer_order env)"
    by (rule pass_final_futures_length)
  also have "\<dots> = card (known_peers st')"
    using fo r(4) by (metis distinct_card)
  finally have bound: "length (good_peers st') \<le> length (good_peers st) + card (known_peers st')"
    using r(2) by simp
  have capped: "max_peers st \<le> int (length (good_peers st)) \<longrightarrow> good_peers st' = good_peers st"
  proof
    assume "max_peers st \<le> int (length (good_peers st))"
    then have "max_peers ?st1 \<le> int (length (good_peers ?st1))"
      by (simp add: add_seed_nodes_fields)
    then have "futures ?s = []"
      using pass_final_cap_reached [of ?st1 env n] by simp
    then show "good_peers st' = good_peers st" using r(2,3) by simp
  qed
  show "\<exists>st'. crawl_network env st n = Inr st'
          \<and> length (good_peers st') = length (good_peers st)
              + length (filter (confirms (net env)) (futures ?s))
          \<and> length (good_peers st') \<le> length (good_peers st) + card (known_peers st')
          \<and> (max_peers st \<le> int (length (good_peers st)) \<longrightarrow> good_peers st' = good_peers st)"
    using r(1,2,3) bound capped by auto
next
  assume "confirms (net env) a"
  then show "\<exists>st2. crawl_peer (net env a) st a = Inr st2
             \<and> length (good_peers st2) = Suc (length (good_peers st))"
    by (rule crawl_peer_confirms)
qed

section \<open>The claims about the codec and the prober\<close>

text \<open>
  C2 (acceptance predicate). For every response buffer the acceptance test returns, without
  raising, whether the buffer has at least 7 bytes, starts with the magic constant
  \<open>F9 BE B4 D9\<close> and has a zero byte at offset 6; and a probe whose connection reaches
  \<open>recv\<close> classifies the peer as capable exactly in that case.
\<close>

theorem acceptance_predicate:
  assumes "socket_exn env = None" "connect_exn env = None" "send_exn env = None"
    "recv_result env = Inr buf" "0 \<le> p" "p \<le> 65535"
  shows "accepts_response buf
           = Inr (7 \<le> length buf \<and> take 4 buf = QTC_MAGIC_BYTES \<and> buf ! 6 = 0)
         \<and> capable (test_pq_handshake env h p)
           = (7 \<le> length buf \<and> take 4 buf = QTC_MAGIC_BYTES \<and> buf ! 6 = 0)"
  by (simp add: accepts_response_iff test_pq_handshake_reached [OF assms])

theorem acceptance_predicate_witness:
  "accepts_response (QTC_MAGIC_BYTES @ [1, 0, 0]) = Inr True
   \<and> capable (test_pq_handshake accepting_peer ''127.0.0.1'' 8333)
   \<and> accepts_response [] = Inr False
   \<and> accepts_response (QTC_MAGIC_BYTES @ [1]) = Inr False
   \<and> accepts_response (QTC_MAGIC_BYTES @ [1, 0, 1]) = Inr False
   \<and> accepts_response ([0, 0, 0, 0] @ [1, 0, 0]) = Inr False"
  using acceptance_predicate [of accepting_peer "QTC_MAGIC_BYTES @ [1, 0, 0]" 8333 "''127.0.0.1''"]
    acceptance_predicate [of "accepting_peer\<lparr>recv_result := Inr []\<rparr>" "[]" 8333 "''127.0.0.1''"]
    acceptance_predicate [of "accepting_peer\<lparr>recv_result := Inr (QTC_MAGIC_BYTES @ [1])\<rparr>"
      "QTC_MAGIC_BYTES @ [1]" 8333 "''127.0.0.1''"]
    acceptance_predicate [of "accepting_peer\<lparr>recv_result := Inr (QTC_MAGIC_BYTES @ [1, 0, 1])\<rparr>"
      "QTC_MAGIC_BYTES @ [1, 0, 1]" 8333 "''127.0.0.1''"]
    acceptance_predicate [of "accepting_peer\<lparr>recv_result := Inr ([0, 0, 0, 0] @ [1, 0, 0])\<rparr>"
      "[0, 0, 0, 0] @ [1, 0, 0]" 8333 "''127.0.0.1''"]
  by (simp add: accepting_peer_def QTC_MAGIC_BYTES_def)

text \<open>
  C9 (what the acceptance test reads). A response made of the magic bytes, any two version
  bytes, a zero byte at offset 6 and any trailing bytes is accepted; and two responses of at
  least 7 bytes that agree on their first four bytes and on the byte at offset 6 are
  classified alike, whatever their version fields and tails are.
\<close>

theorem acceptance_ignores_version_and_tail:
  "accepts_response (QTC_MAGIC_BYTES @ [v0, v1, 0] @ rest) = Inr True
   \<and> (7 \<le> length b \<and> 7 \<le> length b' \<and> take 4 b = take 4 b' \<and> b ! 6 = b' ! 6
        \<longrightarrow> accepts_response b = accepts_response b')"
  by (simp add: accepts_response_iff QTC_MAGIC_BYTES_def)

theorem acceptance_ignores_version_and_tail_witness:
  "accepts_response (QTC_MAGIC_BYTES @ [0xFF, 0xFF, 0] @ [7, 7, 7]) = Inr True
   \<and> accepts_response ([1, 2, 3, 4, 0xFF, 0xFF, 9, 5]) = accepts_response ([1, 2, 3, 4, 0, 1, 9])"
  using acceptance_ignores_version_and_tail [of "0xFF" "0xFF" "[7, 7, 7]"
      "[1, 2, 3, 4, 0xFF, 0xFF, 9, 5]" "[1, 2, 3, 4, 0, 1, 9]"]
  by simp

text \<open>
  C3 (probe message layout), as amended. For every supplied ciphertext of at most 65535
  bytes the encoded probe is the magic bytes, the version 1 as two little-endian bytes, the
  ciphertext length as two little-endian bytes, the ciphertext and 32 zero bytes; for a
  longer ciphertext \<open>struct.pack\<close> raises and no probe is produced; and without a
  ciphertext the probe is the one for 1568 zero bytes.
\<close>

theorem probe_layout:
  "(length ct \<le> 65535 \<longrightarrow>
      (\<exists>ver len. create_pq_handshake (Some ct)
           = Inr (QTC_MAGIC_BYTES @ ver @ len @ ct @ replicate 32 0)
         \<and> length ver = 2 \<and> spec_le_value ver = 1
         \<and> length len = 2 \<and> spec_le_value len = length ct))
   \<and> (65535 < length ct \<longrightarrow> create_pq_handshake (Some ct) = Inl StructError)
   \<and> create_pq_handshake None = create_pq_handshake (Some (replicate 1568 0))"
proof (intro conjI impI)
  assume le: "length ct \<le> 65535"
  let ?n = "int (length ct)"
  let ?len = "[word_of_int (?n mod 256), word_of_int (?n div 256)] :: bytes"
  have "pack_H ?n = Inr ?len"
    using le by (simp add: pack_H_in_range)
  then have "create_pq_handshake (Some ct)
      = Inr (QTC_MAGIC_BYTES @ [1, 0] @ ?len @ ct @ replicate 32 0)"
    by (simp add: create_pq_handshake_Some)
  moreover have "int (spec_le_value ?len) = ?n"
    using le by (intro spec_le_value_pack) simp_all
  then have "spec_le_value ?len = length ct"
    by linarith
  moreover have "spec_le_value [1, 0] = 1" by simp
  ultimately show "\<exists>ver len. create_pq_handshake (Some ct)
           = Inr (QTC_MAGIC_BYTES @ ver @ len @ ct @ replicate 32 0)
         \<and> length ver = 2 \<and> spec_le_value ver = 1
         \<and> length len = 2 \<and> spec_le_value len = length ct"
    by (intro exI [of _ "[1, 0]"] exI [of _ ?len]) simp
next
  assume "65535 < length ct"
  then show "create_pq_handshake (Some ct) = Inl StructError"
    by (simp add: create_pq_handshake_Some pack_H_out_of_range)
next
  show "create_pq_handshake None = create_pq_handshake (Some (replicate 1568 0))"
    by (rule create_pq_handshake_None)
qed

text \<open>
  The claim as stated, for every supplied ciphertext, fails for a ciphertext of 65536 bytes:
  its length does not fit the 16-bit field.
\<close>

theorem probe_layout_counterexample:
  "create_pq_handshake (Some (replicate 65536 0)) = Inl StructError"
  by (simp add: create_pq_handshake_Some pack_H_def)

theorem probe_layout_witness:
  "length [0xAA, 0xBB, 0xCC :: byte] \<le> 65535
   \<and> create_pq_handshake (Some [0xAA, 0xBB, 0xCC])
       = Inr ([0xF9, 0xBE, 0xB4, 0xD9] @ [1, 0] @ [3, 0] @ [0xAA, 0xBB, 0xCC] @ replicate 32 0)
   \<and> 65535 < length (replicate 65536 (0 :: byte))
   \<and> create_pq_handshake (Some (replicate 65536 0)) = Inl StructError
   \<and> create_pq_handshake None
       = Inr ([0xF9, 0xBE, 0xB4, 0xD9] @ [1, 0] @ [0x20, 0x06] @ replicate 1568 0 @ replicate 32 0)"
  using probe_layout [of "[0xAA, 0xBB, 0xCC]"] probe_layout [of "replicate 65536 0"]
  by (simp add: create_pq_handshake_Some pack_H_def QTC_MAGIC_BYTES_def)

text \<open>
  C5 (connection cleanup). The claim is that the socket is closed on every path before the
  probe returns. The code closes it only on the rejection path: for a peer that accepts
  the handshake, and for a peer that refuses the connection, the probe returns with the
  socket still open.
\<close>

theorem probe_leaves_socket_open:
  "test_pq_handshake accepting_peer ''127.0.0.1'' 8333
     = \<lparr>capable = True, sock = SockOpen, plog = [HandshakeOk ''127.0.0.1'' 8333]\<rparr>
   \<and> test_pq_handshake refusing_peer ''127.0.0.1'' 8333
     = \<lparr>capable = False, sock = SockOpen,
        plog = [HandshakeFailed ''127.0.0.1'' 8333 OSError]\<rparr>"
  by (simp add: test_pq_handshake_accepting test_pq_handshake_refusing)

section \<open>The claims about seeding and crawling\<close>

text \<open>
  C8 (seeding idempotence and per-pass dedup). Adding an address that is already in
  \<open>known_peers\<close> changes nothing, and so does seeding twice; and when the main thread walks
  an enumeration of that set, every address is submitted at most once in a pass, whatever
  the interleaving of the threads is.
\<close>

theorem seeding_dedup:
  "add_known_peer a (add_known_peer a st) = add_known_peer a st
   \<and> add_seed_nodes (add_seed_nodes st) = add_seed_nodes st
   \<and> (frontier_order st1 (peer_order env)
        \<longrightarrow> count_list (futures (pass_final env st1 n)) b \<le> 1)"
proof (intro conjI impI)
  show "add_known_peer a (add_known_peer a st) = add_known_peer a st"
    by (simp add: add_known_peer_def)
  show "add_seed_nodes (add_seed_nodes st) = add_seed_nodes st"
    by (rule add_seed_nodes_idem)
next
  assume "frontier_order st1 (peer_order env)"
  then have "distinct (peer_order env)" by (simp add: frontier_order_def)
  then have "distinct (futures (pass_final env st1 n))"
    by (rule pass_final_futures_distinct)
  then show "count_list (futures (pass_final env st1 n)) b \<le> 1"
    by (rule distinct_count_list_le)
qed

theorem seeding_dedup_witness:
  "add_known_peer ''127.0.0.1:8333''
       (add_known_peer ''127.0.0.1:8333'' (seeder_init ''qtc_peers.json'' 1000))
     = add_known_peer ''127.0.0.1:8333'' (seeder_init ''qtc_peers.json'' 1000)
   \<and> frontier_order (add_seed_nodes (seeder_init ''qtc_peers.json'' 1000)) (peer_order race_env)
   \<and> count_list (futures (pass_final race_env
         (add_seed_nodes (seeder_init ''qtc_peers.json'' 1000)) 3)) ''127.0.0.1:8333'' \<le> 1"
  using seeding_dedup [of "''127.0.0.1:8333''" "seeder_init ''qtc_peers.json'' 1000"
      "add_seed_nodes (seeder_init ''qtc_peers.json'' 1000)" race_env 3 "''127.0.0.1:8333''"]
  by (simp add: frontier_order_def race_env_def seed_order_def add_seed_nodes_known_peers
      seeder_init_def)

text \<open>
  C10 (a cap of zero or less). When \<open>max_peers\<close> is not positive the first cap check of the
  submission loop already holds: no task is submitted in any interleaving, and the pass
  completes with \<open>good_peers\<close> as it was, which is empty for a fresh seeder.
\<close>

theorem zero_cap_dispatches_nothing:
  assumes "max_peers st \<le> 0" "0 < n"
  shows "futures (pass_final env (add_seed_nodes (st\<lparr>log := log st @ [CrawlStarting]\<rparr>)) n) = []
     \<and> (\<exists>st'. crawl_network env st n = Inr st' \<and> good_peers st' = good_peers st)"
proof -
  let ?st1 = "add_seed_nodes (st\<lparr>log := log st @ [CrawlStarting]\<rparr>)"
  have "max_peers ?st1 \<le> int (length (good_peers ?st1))"
    using assms(1) by (simp add: add_seed_nodes_fields)
  then have f: "self (pass_final env ?st1 n) = ?st1" "futures (pass_final env ?st1 n) = []"
    using pass_final_cap_reached [of ?st1 env n] by simp_all
  have "crawl_network env st n =
      Inr (?st1\<lparr>log := log ?st1 @ [CrawlCompleted (length (good_peers ?st1))]\<rparr>)"
    using assms(2) f(1) by (simp add: crawl_network_eq Let_def)
  then show ?thesis using f(2) by (simp add: add_seed_nodes_fields)
qed

theorem zero_cap_dispatches_nothing_witness:
  "max_peers (seeder_init ''qtc_peers.json'' 0) \<le> 0
   \<and> futures (pass_final race_env
        (add_seed_nodes ((seeder_init ''qtc_peers.json'' 0)\<lparr>log := [CrawlStarting]\<rparr>)) 50) = []
   \<and> (\<exists>st'. crawl_network race_env (seeder_init ''qtc_peers.json'' 0) 50 = Inr st'
          \<and> good_peers st' = [])"
  using zero_cap_dispatches_nothing [of "seeder_init ''qtc_peers.json'' 0" 50 race_env]
  by (simp add: seeder_init_def)

text \<open>
  C7 (malformed addresses). For an address that does not split into host and port, or whose
  port \<open>int\<close> rejects, \<open>crawl_peer\<close> returns normally, having logged the error and nothing
  else; and a pass with at least one worker completes without an exception, appends no
  record for that address, and, when the address was submitted, has the error in its log.
\<close>

theorem malformed_address_tolerated:
  assumes "parse_peer_addr a = Inl e"
  shows "crawl_peer penv st a = Inr (st\<lparr>log := log st @ [CrawlError a e]\<rparr>)
     \<and> (0 < n \<longrightarrow>
          (\<exists>st' new. crawl_network env st0 n = Inr st'
             \<and> good_peers st' = good_peers st0 @ new \<and> a \<notin> pi_addr ` set new
             \<and> (a \<in> set (futures (pass_final env
                     (add_seed_nodes (st0\<lparr>log := log st0 @ [CrawlStarting]\<rparr>)) n))
                  \<longrightarrow> CrawlError a e \<in> set (log st'))))"
proof (intro conjI impI)
  show "crawl_peer penv st a = Inr (st\<lparr>log := log st @ [CrawlError a e]\<rparr>)"
    using assms by (rule crawl_peer_parse_error)
next
  assume pos: "0 < n"
  let ?st1 = "add_seed_nodes (st0\<lparr>log := log st0 @ [CrawlStarting]\<rparr>)"
  let ?s = "pass_final env ?st1 n"
  let ?st' = "(self ?s)\<lparr>log := log (self ?s) @ [CrawlCompleted (length (good_peers (self ?s)))]\<rparr>"
  obtain new where new: "good_peers (self ?s) = good_peers ?st1 @ new"
    using pass_final_summary [OF pos, of env ?st1] by blast
  have "pi_addr ` set new \<subseteq> set (filter (confirms (net env)) (futures ?s))"
    using new by (rule pass_final_new_addrs)
  moreover have "\<not> confirms (net env) a"
    using assms by (rule confirms_parse_error)
  ultimately have notin: "a \<notin> pi_addr ` set new" by auto
  have c: "crawl_network env st0 n = Inr ?st'"
    using pos by (simp add: crawl_network_eq Let_def)
  have g: "good_peers ?st' = good_peers st0 @ new"
    using new by (simp add: add_seed_nodes_fields)
  have lg: "a \<in> set (futures ?s) \<longrightarrow> CrawlError a e \<in> set (log ?st')"
    using pass_final_error_logged [OF pos _ assms, of env ?st1] by simp
  show "\<exists>st' new. crawl_network env st0 n = Inr st'
             \<and> good_peers st' = good_peers st0 @ new \<and> a \<notin> pi_addr ` set new
             \<and> (a \<in> set (futures ?s) \<longrightarrow> CrawlError a e \<in> set (log st'))"
    using c g notin lg by blast
qed

theorem malformed_address_tolerated_witness:
  "parse_peer_addr ''localhost'' = Inl ValueError
   \<and> parse_peer_addr ''example.org:http'' = Inl ValueError
   \<and> crawl_peer accepting_peer (seeder_init ''qtc_peers.json'' 1000) ''example.org:http''
       = Inr ((seeder_init ''qtc_peers.json'' 1000)
               \<lparr>log := [CrawlError ''example.org:http'' ValueError]\<rparr>)
   \<and> frontier_order
        (add_seed_nodes ((seeder_init ''qtc_peers.json'' 1000)\<lparr>known_peers := {''localhost''}\<rparr>))
        (peer_order malformed_env)
   \<and> ''localhost'' \<in> set (futures (pass_final malformed_env
        (add_seed_nodes ((seeder_init ''qtc_peers.json'' 1000)
           \<lparr>known_peers := {''localhost''}, log := [CrawlStarting]\<rparr>)) 50))
   \<and> (\<exists>st' new. crawl_network malformed_env
           ((seeder_init ''qtc_peers.json'' 1000)\<lparr>known_peers := {''localhost''}\<rparr>) 50 = Inr st'
          \<and> good_peers st' = new \<and> ''localhost'' \<notin> pi_addr ` set new
          \<and> CrawlError ''localhost'' ValueError \<in> set (log st'))"
proof -
  let ?st = "(seeder_init ''qtc_peers.json'' 1000)\<lparr>known_peers := {''localhost''}\<rparr>"
  have l0: "?st\<lparr>log := log ?st @ [CrawlStarting]\<rparr>
      = (seeder_init ''qtc_peers.json'' 1000)\<lparr>known_peers := {''localhost''}, log := [CrawlStarting]\<rparr>"
    by (simp add: seeder_init_def)
  have m: "''localhost'' \<in> set (futures (pass_final malformed_env
        (add_seed_nodes ((seeder_init ''qtc_peers.json'' 1000)
           \<lparr>known_peers := {''localhost''}, log := [CrawlStarting]\<rparr>)) 50))"
    by (simp add: malformed_pass)
  have g0: "good_peers ?st = []"
    by (simp add: seeder_init_def)
  from malformed_address_tolerated [OF parse_malformed(1), of accepting_peer
      "seeder_init ''qtc_peers.json'' 1000" 50 malformed_env ?st]
  have p: "\<exists>st' new. crawl_network malformed_env ?st 50 = Inr st'
          \<and> good_peers st' = new \<and> ''localhost'' \<notin> pi_addr ` set new
          \<and> CrawlError ''localhost'' ValueError \<in> set (log st')"
    using m unfolding l0 g0 by auto
  have "crawl_peer accepting_peer (seeder_init ''qtc_peers.json'' 1000) ''example.org:http''
       = Inr ((seeder_init ''qtc_peers.json'' 1000)
               \<lparr>log := [CrawlError ''example.org:http'' ValueError]\<rparr>)"
    using malformed_address_tolerated [OF parse_malformed(2), of accepting_peer
      "seeder_init ''qtc_peers.json'' 1000"]
    by (simp add: seeder_init_def)
  then show ?thesis
    using parse_malformed malformed_frontier m p by blast
qed

text \<open>
  C1 (cap enforcement). The claim is that with \<open>max_peers = 1\<close> and three accepting
  addresses probed by three workers the pass ends with one confirmed peer, and that no
  pass ends above \<open>max_peers + (concurrency_limit - 1)\<close>. The code tests the cap only before
  each submission (line 131), \<open>submit\<close> queues without bound, and \<open>crawl_peer\<close> appends
  without a test. On the pass \<open>race_env\<close> with \<open>max_peers = 1\<close> all tasks are submitted
  before the first record is appended and the three accepting probes are all recorded:
  the pass ends with 3 confirmed peers with three workers, and with 3 as well with a single
  worker, where the claimed bound is 1.
\<close>

theorem cap_exceeded_by_queued_probes:
  "map_sum id (\<lambda>st'. length (good_peers st'))
      (crawl_network race_env (seeder_init ''qtc_peers.json'' 1) 3) = Inr 3
   \<and> map_sum id (\<lambda>st'. length (good_peers st'))
      (crawl_network race_env (seeder_init ''qtc_peers.json'' 1) 1) = Inr 3"
  using length_via_map [OF race_pass_3] length_via_map [OF race_pass_1]
  by (simp add: crawl_network_eq Let_def seeder_init_def)

text \<open>
  C4 (uniqueness and monotonicity of the confirmed peers), as amended. The records a single
  pass appends have pairwise distinct addresses, and \<open>good_peers\<close> only grows: after a
  pass, and after any number of iterations of the continuous loop, the earlier list is a
  prefix of the later one, so its length never decreases. Nothing checks whether an
  address is already recorded.
\<close>

theorem confirmed_peers_growth:
  "(0 < n \<and> distinct (peer_order env) \<longrightarrow>
      (\<exists>st' new. crawl_network env st n = Inr st'
         \<and> good_peers st' = good_peers st @ new \<and> distinct (map pi_addr new)))
   \<and> (after_passes envs interval i k st = Inr st'' \<longrightarrow>
        (\<exists>new. good_peers st'' = good_peers st @ new)
        \<and> length (good_peers st) \<le> length (good_peers st''))"
proof (intro conjI impI)
  assume "0 < n \<and> distinct (peer_order env)"
  then show "\<exists>st' new. crawl_network env st n = Inr st'
         \<and> good_peers st' = good_peers st @ new \<and> distinct (map pi_addr new)"
    using crawl_network_summary [of n env st] by blast
next
  assume a: "after_passes envs interval i k st = Inr st''"
  then show "\<exists>new. good_peers st'' = good_peers st @ new"
    by (rule after_passes_prefix)
  then show "length (good_peers st) \<le> length (good_peers st'')"
    by auto
qed

text \<open>
  The claim as stated, at most one record per address across repeated passes, fails after
  two iterations of the continuous loop in which the same address accepts the handshake:
  it is recorded twice.
\<close>

theorem confirmed_peers_growth_counterexample:
  "map_sum id (\<lambda>st'. map pi_addr (good_peers st'))
      (after_passes (\<lambda>i. local_env) 3600 0 (Suc (Suc 0)) (seeder_init ''qtc_peers.json'' 1000))
   = Inr [''127.0.0.1:8333'', ''127.0.0.1:8333'']
   \<and> \<not> distinct [''127.0.0.1:8333'', ''127.0.0.1:8333'']"
  using local_two_passes by simp

theorem confirmed_peers_growth_witness:
  "distinct (peer_order race_env)
   \<and> (\<exists>st' new. crawl_network race_env (seeder_init ''qtc_peers.json'' 1) 3 = Inr st'
         \<and> good_peers st' = new \<and> distinct (map pi_addr new))
   \<and> (\<exists>st''. after_passes (\<lambda>i. local_env) 3600 0 (Suc (Suc 0))
           (seeder_init ''qtc_peers.json'' 1000) = Inr st''
         \<and> length (good_peers (seeder_init ''qtc_peers.json'' 1000)) \<le> length (good_peers st''))"
proof -
  have d: "distinct (peer_order race_env)"
    by (simp add: race_env_def seed_order_def)
  obtain st'' where a: "after_passes (\<lambda>i. local_env) 3600 0 (Suc (Suc 0))
      (seeder_init ''qtc_peers.json'' 1000) = Inr st''"
    using local_two_passes by (auto simp: map_sum_def split: sum.splits)
  from confirmed_peers_growth [of 3 race_env "seeder_init ''qtc_peers.json'' 1"
      "\<lambda>i. local_env" 3600 0 "Suc (Suc 0)" st''] d
  have "\<exists>st' new. crawl_network race_env (seeder_init ''qtc_peers.json'' 1) 3 = Inr st'
         \<and> good_peers st' = new \<and> distinct (map pi_addr new)"
    by (auto simp: seeder_init_def)
  moreover from confirmed_peers_growth [of 3 race_env "seeder_init ''qtc_peers.json'' 1000"
      "\<lambda>i. local_env" 3600 0 "Suc (Suc 0)" st''] a
  have "length (good_peers (seeder_init ''qtc_peers.json'' 1000)) \<le> length (good_peers st'')"
    by blast
  ultimately show ?thesis using d a by blast
qed

section \<open>The claim about the continuous runner\<close>




end
